theory Spec2Isabelle
  imports Complex_Main
begin

section \<open>Audio partitioning (\<^verbatim>\<open>src/audio_processing.py\<close>)\<close>

text \<open>
  A decoded \<^verbatim>\<open>AudioSegment\<close> is indexed in milliseconds: \<^verbatim>\<open>len(audio)\<close> is its length
  in ms and \<^verbatim>\<open>audio[a:b]\<close> is the slice of the milliseconds \<open>a \<le> t < b\<close>. The buffer is
  modelled as the list of its millisecond frames, whatever a frame holds.

  \<^verbatim>\<open>chunk_duration_ms\<close> is a natural number here; the source's \<^verbatim>\<open>range\<close> raises
  \<^verbatim>\<open>ValueError\<close> for a step of zero, which is a branch of the model.
\<close>

datatype py_error = ValueError

text \<open>\<^verbatim>\<open>range(start, stop, step)\<close> for a step that is not zero, as the list it runs through.\<close>

function py_range :: "nat \<Rightarrow> nat \<Rightarrow> nat \<Rightarrow> nat list" where
  "py_range start stop step =
     (if step = 0 then []
      else if start < stop then start # py_range (start + step) stop step
      else [])"
  by pat_completeness auto
termination
  by (relation "measure (\<lambda>(start, stop, step). stop - start)") auto

declare py_range.simps [simp del]

text \<open>\<^verbatim>\<open>audio[start_ms:end_ms]\<close> for \<open>start_ms \<le> end_ms\<close>.\<close>

definition slice :: "'a list \<Rightarrow> nat \<Rightarrow> nat \<Rightarrow> 'a list" where
  "slice audio start_ms end_ms = take (end_ms - start_ms) (drop start_ms audio)"

text \<open>
  The spans \<open>(start_ms, end_ms)\<close> that the loop of \<^verbatim>\<open>chunk_audio\<close> cuts, in the order of
  the loop: \<^verbatim>\<open>end_ms = min(start_ms + chunk_duration_ms, audio_length)\<close>.
\<close>

definition chunk_spans :: "nat \<Rightarrow> nat \<Rightarrow> (nat \<times> nat) list" where
  "chunk_spans audio_length chunk_duration_ms =
     map (\<lambda>start_ms. (start_ms, min (start_ms + chunk_duration_ms) audio_length))
       (py_range 0 audio_length chunk_duration_ms)"

definition chunk_audio :: "'a list \<Rightarrow> nat \<Rightarrow> py_error + 'a list list" where
  "chunk_audio audio chunk_duration_ms =
     (let audio_length = length audio in
      if chunk_duration_ms = 0 then Inl ValueError
      else Inr (map (\<lambda>(start_ms, end_ms). slice audio start_ms end_ms)
                  (chunk_spans audio_length chunk_duration_ms)))"

text \<open>
  \<^verbatim>\<open>chunk_audio_by_size\<close> has the same loop with the step fixed to 600000 ms; its
  \<^verbatim>\<open>max_size_bytes\<close> argument is never read.
\<close>

definition chunk_audio_by_size :: "'a list \<Rightarrow> int \<Rightarrow> 'a list list" where
  "chunk_audio_by_size audio max_size_bytes =
     (let audio_length = length audio;
          chunk_duration_ms = 600000 in
      map (\<lambda>start_ms. slice audio start_ms (min (start_ms + chunk_duration_ms) audio_length))
        (py_range 0 audio_length chunk_duration_ms))"

text \<open>
  What the specification asks of a list of spans over \<open>[0, D)\<close>: none is empty, each
  starts where the one before ends, the first starts at 0 and the last ends at \<open>D\<close>.
  For \<open>D = 0\<close> the only such list is the empty one.
\<close>

fun contiguous_from :: "nat \<Rightarrow> (nat \<times> nat) list \<Rightarrow> nat \<Rightarrow> bool" where
  "contiguous_from a [] d = (a = d)"
| "contiguous_from a ((s, e) # spans) d = (s = a \<and> s < e \<and> contiguous_from e spans d)"

section \<open>Transcription results (\<^verbatim>\<open>src/transcription.py\<close>)\<close>

text \<open>
  A segment of the backend's response is a dictionary with the keys \<^verbatim>\<open>start\<close>, \<^verbatim>\<open>end\<close>
  (seconds, Python floats) and \<^verbatim>\<open>text\<close>. Times are real numbers here: the code only ever
  adds them in the order written below, and no result depends on rounding.
\<close>

record segment =
  seg_start :: real
  seg_end :: real
  seg_text :: string

text \<open>An entry of \<^verbatim>\<open>chunk_errors\<close>: its index is an integer or the string \<^verbatim>\<open>'unknown'\<close>.\<close>

datatype int_or_str = IntV nat | StrV string

record chunk_error =
  ce_index :: int_or_str
  ce_error :: string

text \<open>
  Every result of this module is a Python \<^verbatim>\<open>dict\<close> over a fixed set of keys. Field
  \<open>k_x\<close> is the entry under key \<^verbatim>\<open>'x'\<close>; \<open>None\<close> says that the key is absent. Where the code
  stores Python's \<^verbatim>\<open>None\<close> under a key (\<^verbatim>\<open>duration\<close>, \<^verbatim>\<open>language\<close>, \<^verbatim>\<open>total_duration\<close>)
  the entry is \<open>Some None\<close>. The type parameter is what the list under \<^verbatim>\<open>'segments'\<close> holds:
  segments themselves, or references to segment objects in a store.
\<close>

record 's pydict =
  k_success :: "bool option"
  k_text :: "string option"
  k_language :: "string option option"
  k_duration :: "real option option"
  k_segments :: "'s list option"
  k_file_path :: "string option"
  k_error :: "string option"
  k_chunk_index :: "nat option"
  k_total_chunks :: "nat option"
  k_successful_chunks :: "nat option"
  k_failed_chunks :: "nat option"
  k_total_duration :: "real option option"
  k_chunk_errors :: "chunk_error list option"

definition empty_dict :: "'s pydict" where
  "empty_dict =
     \<lparr>k_success = None, k_text = None, k_language = None, k_duration = None,
      k_segments = None, k_file_path = None, k_error = None, k_chunk_index = None,
      k_total_chunks = None, k_successful_chunks = None, k_failed_chunks = None,
      k_total_duration = None, k_chunk_errors = None\<rparr>"

text \<open>Truth value of an optional string: \<^verbatim>\<open>None\<close> and \<^verbatim>\<open>''\<close> are false.\<close>

definition truthy_str :: "string option \<Rightarrow> bool" where
  "truthy_str s = (case s of None \<Rightarrow> False | Some t \<Rightarrow> t \<noteq> [])"

subsection \<open>The Transcriber and \<^verbatim>\<open>transcribe_audio\<close>\<close>

text \<open>
  The backend is outside the program. One call of it (opening the chunk file and
  \<^verbatim>\<open>client.audio.transcriptions.create(**params)\<close>) either raises, with \<^verbatim>\<open>str(e)\<close> the
  message, or returns a response object, whose attributes \<^verbatim>\<open>text\<close>, \<^verbatim>\<open>language\<close>,
  \<^verbatim>\<open>duration\<close> and \<^verbatim>\<open>segments\<close> may each be missing (\<^verbatim>\<open>hasattr\<close>); \<open>resp_str\<close> is
  \<^verbatim>\<open>str(response)\<close>. Console output is not modelled.
\<close>

record response =
  resp_text :: "string option"
  resp_str :: string
  resp_language :: "string option"
  resp_duration :: "real option"
  resp_segments :: "segment list option"

datatype outcome = Raised string | Returned response

record params =
  p_model :: string
  p_file :: string
  p_language :: "string option"
  p_prompt :: "string option"

record service =
  model :: string
  prompt_context :: "string option"

definition create_params :: "service \<Rightarrow> string \<Rightarrow> string option \<Rightarrow> string option \<Rightarrow> params" where
  "create_params self audio_file_path language prompt =
     (let params = \<lparr>p_model = model self, p_file = audio_file_path,
                     p_language = None, p_prompt = None\<rparr>;
          params = (if truthy_str language then params\<lparr>p_language := language\<rparr> else params);
          effective_prompt = (if truthy_str prompt then prompt else prompt_context self)
      in if truthy_str effective_prompt then params\<lparr>p_prompt := effective_prompt\<rparr> else params)"

definition transcribe_audio ::
  "service \<Rightarrow> (params \<Rightarrow> outcome) \<Rightarrow> string \<Rightarrow> string option \<Rightarrow> string option \<Rightarrow> segment pydict"
where
  "transcribe_audio self create audio_file_path language prompt =
     (case create (create_params self audio_file_path language prompt) of
        Returned response \<Rightarrow>
          (let text = (case resp_text response of Some t \<Rightarrow> t | None \<Rightarrow> resp_str response) in
           empty_dict\<lparr>
             k_success := Some True,
             k_text := Some text,
             k_language := Some (case resp_language response of
                                   Some l \<Rightarrow> Some l
                                 | None \<Rightarrow> (if truthy_str language then language
                                            else Some ''unknown'')),
             k_duration := Some (resp_duration response),
             k_segments := Some (case resp_segments response of Some segs \<Rightarrow> segs | None \<Rightarrow> []),
             k_file_path := Some audio_file_path\<rparr>)
      | Raised error_msg \<Rightarrow>
          empty_dict\<lparr>
            k_success := Some False,
            k_error := Some (''Error: '' @ error_msg),
            k_file_path := Some audio_file_path\<rparr>)"

subsection \<open>The runner, \<^verbatim>\<open>transcribe_chunks_sequential\<close>\<close>

text \<open>
  The backend may answer each call differently, so the runner is given the behaviour of
  every call: \<open>api k\<close> is what the backend does at call number \<open>k\<close> of the invocation.

  The progress observer is an argument that is \<^verbatim>\<open>None\<close> or a callable which returns
  normally, as its interface asks; the source does not catch what it might raise.
  \<open>cb\<close> tells whether an observer was passed, and the calls made to it, the pairs
  (fraction, message), are appended in order to the list \<open>notes\<close>, which is threaded
  through as state.
\<close>

type_synonym notification = "real \<times> string"

function str_nat :: "nat \<Rightarrow> string" where
  "str_nat n =
     (if n < 10 then [''0123456789'' ! n]
      else str_nat (n div 10) @ [''0123456789'' ! (n mod 10)])"
  by pat_completeness auto
termination
  by (relation "measure id") auto

declare str_nat.simps [simp del]

definition progress_callback :: "bool \<Rightarrow> real \<Rightarrow> string \<Rightarrow> notification list \<Rightarrow> notification list" where
  "progress_callback cb fraction message notes =
     (if cb then notes @ [(fraction, message)] else notes)"

fun chunks_loop ::
  "service \<Rightarrow> (nat \<Rightarrow> params \<Rightarrow> outcome) \<Rightarrow> string option \<Rightarrow> bool \<Rightarrow> nat \<Rightarrow>
   nat \<Rightarrow> string list \<Rightarrow> segment pydict list \<times> notification list \<Rightarrow> segment pydict list \<times> notification list"
where
  "chunks_loop self api language cb total_chunks i [] (results, notes) = (results, notes)"
| "chunks_loop self api language cb total_chunks i (chunk_path # rest) (results, notes) =
     (let notes = progress_callback cb (real i / real total_chunks)
                    (''Transcribing chunk '' @ str_nat (i + 1) @ ''/'' @ str_nat total_chunks
                       @ ''...'') notes;
          result = transcribe_audio self (api i) chunk_path language None;
          result = result\<lparr>k_chunk_index := Some i\<rparr>;
          results = results @ [result];
          notes = progress_callback cb (real (i + 1) / real total_chunks)
                    (''Transcribed chunk '' @ str_nat (i + 1) @ ''/'' @ str_nat total_chunks)
                    notes
      in chunks_loop self api language cb total_chunks (i + 1) rest (results, notes))"

definition transcribe_chunks_sequential ::
  "service \<Rightarrow> (nat \<Rightarrow> params \<Rightarrow> outcome) \<Rightarrow> string list \<Rightarrow> string option \<Rightarrow> bool \<Rightarrow>
   notification list \<Rightarrow> segment pydict list \<times> notification list"
where
  "transcribe_chunks_sequential self api chunk_paths language cb notes =
     (let results = [];
          total_chunks = length chunk_paths
      in chunks_loop self api language cb total_chunks 0 chunk_paths (results, notes))"

subsection \<open>The reassembler, \<^verbatim>\<open>reassemble_transcription\<close>\<close>

text \<open>
  \<^verbatim>\<open>r.get('success', False)\<close>, \<^verbatim>\<open>chunk.get('duration')\<close> and \<^verbatim>\<open>chunk.get('segments', [])\<close>
  (a list that is missing or \<^verbatim>\<open>None\<close> is skipped by \<^verbatim>\<open>if segments:\<close> like an empty one).
\<close>

definition is_success :: "'s pydict \<Rightarrow> bool" where
  "is_success r = (k_success r = Some True)"

definition get_duration :: "'s pydict \<Rightarrow> real option" where
  "get_duration chunk = (case k_duration chunk of Some (Some d) \<Rightarrow> Some d | _ \<Rightarrow> None)"

definition get_segments :: "'s pydict \<Rightarrow> 's list" where
  "get_segments chunk = (case k_segments chunk of Some segs \<Rightarrow> segs | None \<Rightarrow> [])"

text \<open>\<^verbatim>\<open>chunk.get('text', '')\<close>.\<close>

definition get_text :: "'s pydict \<Rightarrow> string" where
  "get_text chunk = (case k_text chunk of Some t \<Rightarrow> t | None \<Rightarrow> [])"

text \<open>\<^verbatim>\<open>sep.join(xs)\<close>.\<close>

fun py_join :: "string \<Rightarrow> string list \<Rightarrow> string" where
  "py_join sep [] = []"
| "py_join sep [x] = x"
| "py_join sep (x # y # ys) = x @ sep @ py_join sep (y # ys)"

text \<open>
  The inner loop over one chunk's segments: each segment is copied, the copy's
  \<^verbatim>\<open>start\<close> and \<^verbatim>\<open>end\<close> are increased by \<open>time_offset\<close>, and the copy is appended.
\<close>

fun adjust_loop :: "segment list \<Rightarrow> real \<Rightarrow> segment list \<Rightarrow> segment list" where
  "adjust_loop [] time_offset all_segments = all_segments"
| "adjust_loop (segment # rest) time_offset all_segments =
     (let adjusted_segment = segment;
          adjusted_segment =
            adjusted_segment\<lparr>seg_start := seg_start adjusted_segment + time_offset\<rparr>;
          adjusted_segment =
            adjusted_segment\<lparr>seg_end := seg_end adjusted_segment + time_offset\<rparr>
      in adjust_loop rest time_offset (all_segments @ [adjusted_segment]))"

text \<open>
  The outer loop over the successful chunks. The update of \<open>time_offset\<close> stands inside
  \<^verbatim>\<open>if segments:\<close>, as in the source; \<^verbatim>\<open>if chunk.get('duration')\<close> is false for a missing
  duration and for the duration 0.
\<close>

fun merge_loop :: "segment pydict list \<Rightarrow> segment list \<times> real \<Rightarrow> segment list \<times> real" where
  "merge_loop [] (all_segments, time_offset) = (all_segments, time_offset)"
| "merge_loop (chunk # rest) (all_segments, time_offset) =
     (let segments = get_segments chunk in
      if segments \<noteq> [] then
        (let all_segments = adjust_loop segments time_offset all_segments;
             time_offset = (case get_duration chunk of
                              Some d \<Rightarrow> if d \<noteq> 0 then time_offset + d else time_offset
                            | None \<Rightarrow> time_offset)
         in merge_loop rest (all_segments, time_offset))
      else merge_loop rest (all_segments, time_offset))"

definition chunk_error_of :: "'s pydict \<Rightarrow> chunk_error" where
  "chunk_error_of r =
     \<lparr>ce_index = (case k_chunk_index r of Some i \<Rightarrow> IntV i | None \<Rightarrow> StrV ''unknown''),
      ce_error = (case k_error r of Some e \<Rightarrow> e | None \<Rightarrow> ''unknown error'')\<rparr>"

definition reassemble_transcription :: "segment pydict list \<Rightarrow> segment pydict" where
  "reassemble_transcription chunk_results =
     (let successful_chunks = filter is_success chunk_results;
          failed_chunks = filter (\<lambda>r. \<not> is_success r) chunk_results
      in
      if successful_chunks = [] then
        empty_dict\<lparr>
          k_success := Some False,
          k_error := Some ''All chunks failed to transcribe'',
          k_failed_chunks := Some (length failed_chunks),
          k_chunk_errors := Some (map chunk_error_of failed_chunks)\<rparr>
      else
        (let full_text =
               py_join '' ''
                 (map get_text
                    (filter (\<lambda>chunk. truthy_str (k_text chunk)) successful_chunks));
             (all_segments, time_offset) = merge_loop successful_chunks ([], 0)
         in
         empty_dict\<lparr>
           k_success := Some True,
           k_text := Some full_text,
           k_segments := Some all_segments,
           k_total_chunks := Some (length chunk_results),
           k_successful_chunks := Some (length successful_chunks),
           k_failed_chunks := Some (length failed_chunks),
           k_language := Some (case successful_chunks of
                                 c # _ \<Rightarrow> (case k_language c of Some l \<Rightarrow> l | None \<Rightarrow> None)
                               | [] \<Rightarrow> Some ''unknown''),
           k_total_duration := Some (if time_offset > 0 then Some time_offset else None)\<rparr>))"

subsection \<open>The entry point, \<^verbatim>\<open>transcribe_file\<close>\<close>

definition transcribe_file ::
  "service \<Rightarrow> (nat \<Rightarrow> params \<Rightarrow> outcome) \<Rightarrow> string list \<Rightarrow> string option \<Rightarrow> bool \<Rightarrow>
   segment pydict \<times> notification list"
where
  "transcribe_file self api chunk_paths language cb =
     (if chunk_paths = [] then
        (empty_dict\<lparr>k_success := Some False, k_error := Some ''No audio chunks provided''\<rparr>, [])
      else if length chunk_paths = 1 then
        (let notes = progress_callback cb 0.5 ''Transcribing audio...'' [];
             result = transcribe_audio self (api 0) (chunk_paths ! 0) language None;
             notes = progress_callback cb 1.0 ''Transcription complete!'' notes
         in (result, notes))
      else
        (let notes = progress_callback cb 0.1 ''Starting transcription...'' [];
             (chunk_results, notes) =
               transcribe_chunks_sequential self api chunk_paths language cb notes;
             notes = progress_callback cb 0.9 ''Reassembling transcription...'' notes;
             final_result = reassemble_transcription chunk_results;
             notes = progress_callback cb 1.0 ''Transcription complete!'' notes
         in (final_result, notes)))"

subsection \<open>The reassembler over a store of segment objects\<close>

text \<open>
  Python dictionaries are objects, and the list under \<^verbatim>\<open>'segments'\<close> holds references to
  them. Whether \<^verbatim>\<open>reassemble_transcription\<close> changes its input is a question about
  these objects, so the same function is written once more over an explicit store:
  a reference is a position in the store, \<^verbatim>\<open>segment.copy()\<close> allocates a new object at
  the end of it, and \<^verbatim>\<open>adjusted_segment['start'] += time_offset\<close> writes to the object
  that \<open>adjusted_segment\<close> refers to. The chunk dictionaries and the input list are only
  read (\<^verbatim>\<open>.get\<close>, iteration); the source has no assignment into them.
\<close>

type_synonym store = "segment list"

definition copy_obj :: "store \<Rightarrow> nat \<Rightarrow> nat \<times> store" where
  "copy_obj h a = (length h, h @ [h ! a])"

definition add_start :: "store \<Rightarrow> nat \<Rightarrow> real \<Rightarrow> store" where
  "add_start h a x = h[a := (h ! a)\<lparr>seg_start := seg_start (h ! a) + x\<rparr>]"

definition add_end :: "store \<Rightarrow> nat \<Rightarrow> real \<Rightarrow> store" where
  "add_end h a x = h[a := (h ! a)\<lparr>seg_end := seg_end (h ! a) + x\<rparr>]"

fun adjust_loop_store :: "nat list \<Rightarrow> real \<Rightarrow> nat list \<times> store \<Rightarrow> nat list \<times> store" where
  "adjust_loop_store [] time_offset (all_segments, h) = (all_segments, h)"
| "adjust_loop_store (segment # rest) time_offset (all_segments, h) =
     (let (adjusted_segment, h) = copy_obj h segment;
          h = add_start h adjusted_segment time_offset;
          h = add_end h adjusted_segment time_offset
      in adjust_loop_store rest time_offset (all_segments @ [adjusted_segment], h))"

fun merge_loop_store ::
  "nat pydict list \<Rightarrow> (nat list \<times> real) \<times> store \<Rightarrow> (nat list \<times> real) \<times> store"
where
  "merge_loop_store [] ((all_segments, time_offset), h) = ((all_segments, time_offset), h)"
| "merge_loop_store (chunk # rest) ((all_segments, time_offset), h) =
     (let segments = get_segments chunk in
      if segments \<noteq> [] then
        (let (all_segments, h) = adjust_loop_store segments time_offset (all_segments, h);
             time_offset = (case get_duration chunk of
                              Some d \<Rightarrow> if d \<noteq> 0 then time_offset + d else time_offset
                            | None \<Rightarrow> time_offset)
         in merge_loop_store rest ((all_segments, time_offset), h))
      else merge_loop_store rest ((all_segments, time_offset), h))"

definition reassemble_transcription_store :: "store \<Rightarrow> nat pydict list \<Rightarrow> nat pydict \<times> store" where
  "reassemble_transcription_store h chunk_results =
     (let successful_chunks = filter is_success chunk_results;
          failed_chunks = filter (\<lambda>r. \<not> is_success r) chunk_results
      in
      if successful_chunks = [] then
        (empty_dict\<lparr>
           k_success := Some False,
           k_error := Some ''All chunks failed to transcribe'',
           k_failed_chunks := Some (length failed_chunks),
           k_chunk_errors := Some (map chunk_error_of failed_chunks)\<rparr>, h)
      else
        (let full_text =
               py_join '' ''
                 (map get_text
                    (filter (\<lambda>chunk. truthy_str (k_text chunk)) successful_chunks));
             ((all_segments, time_offset), h) = merge_loop_store successful_chunks (([], 0), h)
         in
         (empty_dict\<lparr>
            k_success := Some True,
            k_text := Some full_text,
            k_segments := Some all_segments,
            k_total_chunks := Some (length chunk_results),
            k_successful_chunks := Some (length successful_chunks),
            k_failed_chunks := Some (length failed_chunks),
            k_language := Some (case successful_chunks of
                                  c # _ \<Rightarrow> (case k_language c of Some l \<Rightarrow> l | None \<Rightarrow> None)
                                | [] \<Rightarrow> Some ''unknown''),
            k_total_duration := Some (if time_offset > 0 then Some time_offset else None)\<rparr>, h)))"

text \<open>
  Reading a dictionary through the store: every reference under \<^verbatim>\<open>'segments'\<close> is
  replaced by the object it refers to. A reference is valid when it points into the store.
\<close>

definition load :: "store \<Rightarrow> nat pydict \<Rightarrow> segment pydict" where
  "load h d =
     \<lparr>k_success = k_success d, k_text = k_text d, k_language = k_language d,
      k_duration = k_duration d,
      k_segments = map_option (map (\<lambda>a. h ! a)) (k_segments d),
      k_file_path = k_file_path d, k_error = k_error d, k_chunk_index = k_chunk_index d,
      k_total_chunks = k_total_chunks d, k_successful_chunks = k_successful_chunks d,
      k_failed_chunks = k_failed_chunks d, k_total_duration = k_total_duration d,
      k_chunk_errors = k_chunk_errors d\<rparr>"

definition refs_ok :: "store \<Rightarrow> nat pydict list \<Rightarrow> bool" where
  "refs_ok h chunk_results =
     list_all (\<lambda>r. list_all (\<lambda>a. a < length h) (get_segments r)) chunk_results"

section \<open>The specification's reassembly, in its own words\<close>

text \<open>
  The specification merges the successful chunks ``in index order (not arrival order)'':
  sorted by their \<^verbatim>\<open>chunk_index\<close>. A result without an index sorts as index 0; the
  specification's data model has none.
\<close>

definition index_key :: "'s pydict \<Rightarrow> nat" where
  "index_key r = (case k_chunk_index r of Some i \<Rightarrow> i | None \<Rightarrow> 0)"

definition in_index_order :: "'s pydict list \<Rightarrow> 's pydict list" where
  "in_index_order rs = sort_key index_key rs"

text \<open>
  ``Maintain a running \<open>time_offset\<close> starting at 0. For each successful chunk, for each
  of its segments, emit \<open>start + time_offset\<close>, \<open>end + time_offset\<close>, unchanged text. After
  processing a chunk's segments, advance \<open>time_offset\<close> by that chunk's reported duration
  if present; if a chunk reports no duration, \<open>time_offset\<close> is left unchanged.''
\<close>

fun spec_shift :: "real \<Rightarrow> segment pydict list \<Rightarrow> segment list" where
  "spec_shift time_offset [] = []"
| "spec_shift time_offset (chunk # rest) =
     map (\<lambda>s. \<lparr>seg_start = seg_start s + time_offset, seg_end = seg_end s + time_offset,
                seg_text = seg_text s\<rparr>) (get_segments chunk)
     @ spec_shift (case get_duration chunk of Some d \<Rightarrow> time_offset + d | None \<Rightarrow> time_offset)
         rest"

definition spec_segments :: "segment pydict list \<Rightarrow> segment list" where
  "spec_segments chunk_results = spec_shift 0 (in_index_order (filter is_success chunk_results))"

text \<open>``Concatenate successes' text fields in index order joined by a single space.''\<close>

definition spec_text :: "segment pydict list \<Rightarrow> string" where
  "spec_text chunk_results =
     py_join '' '' (map get_text (in_index_order (filter is_success chunk_results)))"

text \<open>
  The uniform shape of a \<^verbatim>\<open>TranscriptResult\<close>: the keys \<^verbatim>\<open>success\<close>, \<^verbatim>\<open>text\<close>,
  \<^verbatim>\<open>language\<close>, \<^verbatim>\<open>segments\<close>, \<^verbatim>\<open>total_chunks\<close>, \<^verbatim>\<open>successful_chunks\<close>, \<^verbatim>\<open>failed_chunks\<close>
  and \<^verbatim>\<open>total_duration\<close> are all there.
\<close>

definition has_transcript_shape :: "'s pydict \<Rightarrow> bool" where
  "has_transcript_shape r =
     (k_success r \<noteq> None \<and> k_text r \<noteq> None \<and> k_language r \<noteq> None \<and> k_segments r \<noteq> None
      \<and> k_total_chunks r \<noteq> None \<and> k_successful_chunks r \<noteq> None
      \<and> k_failed_chunks r \<noteq> None \<and> k_total_duration r \<noteq> None)"

section \<open>Example inputs\<close>

text \<open>
  Chunk results as the runner stamps them: a success with text \<open>t\<close>, duration \<open>d\<close> and the
  segments \<open>segs\<close>, and a failure with the message \<open>msg\<close>, each with its chunk index.
\<close>

definition seg :: "real \<Rightarrow> real \<Rightarrow> string \<Rightarrow> segment" where
  "seg a b t = \<lparr>seg_start = a, seg_end = b, seg_text = t\<rparr>"

definition chunk_ok :: "nat \<Rightarrow> string \<Rightarrow> real option \<Rightarrow> 's list \<Rightarrow> 's pydict" where
  "chunk_ok i t d segs =
     empty_dict\<lparr>k_success := Some True, k_text := Some t, k_language := Some (Some ''en''),
       k_duration := Some d, k_segments := Some segs, k_file_path := Some ''chunk.mp3'',
       k_chunk_index := Some i\<rparr>"

definition chunk_failed :: "nat \<Rightarrow> string \<Rightarrow> 's pydict" where
  "chunk_failed i msg =
     empty_dict\<lparr>k_success := Some False, k_error := Some (''Error: '' @ msg),
       k_file_path := Some ''chunk.mp3'', k_chunk_index := Some i\<rparr>"

text \<open>
  A service, and a backend that answers its call number 1 by raising and every other
  call with a verbose response of 300 seconds and one segment.
\<close>

definition svc :: service where
  "svc = \<lparr>model = ''whisper-1'', prompt_context = None\<rparr>"

definition reply :: response where
  "reply = \<lparr>resp_text = Some ''hello'', resp_str = ''Transcription'',
            resp_language = Some ''en'', resp_duration = Some 300,
            resp_segments = Some [seg 0 10 ''hello'']\<rparr>"

definition api_second_fails :: "nat \<Rightarrow> params \<Rightarrow> outcome" where
  "api_second_fails k p = (if k = 1 then Raised ''timeout'' else Returned reply)"

text \<open>
  A store with two segment objects, and two successful chunk results that refer to them.
\<close>

definition store0 :: store where
  "store0 = [seg 0 10 ''a'', seg 0 5 ''b'']"

definition chunks0 :: "nat pydict list" where
  "chunks0 = [chunk_ok 0 ''a'' (Some 300) [0], chunk_ok 1 ''b'' (Some 120) [1]]"

section \<open>Partitioning: proofs\<close>

lemma py_range_Nil [simp]: "stop \<le> start \<Longrightarrow> py_range start stop step = []"
  by (simp add: py_range.simps)

lemma py_range_Cons:
  "0 < step \<Longrightarrow> start < stop \<Longrightarrow>
   py_range start stop step = start # py_range (start + step) stop step"
  by (subst py_range.simps) simp

lemma ceil_div_step:
  fixes step :: nat
  assumes "0 < step" "start < stop"
  shows "(stop - start + step - 1) div step = Suc ((stop - (start + step) + step - 1) div step)"
proof (cases "start + step \<le> stop")
  case True
  define m where "m = stop - (start + step) + step - 1"
  have "stop - start + step - 1 = m + step"
    using assms True by (simp add: m_def)
  moreover have "(m + step) div step = Suc (m div step)"
    using assms(1) by simp
  ultimately show ?thesis by (simp add: m_def)
next
  case False
  define m where "m = stop - start + step - 1"
  from False assms have "m < 2 * step" and "step \<le> m" by (simp_all add: m_def)
  then obtain r where "m = step + r" "r < step"
    by (metis add_diff_inverse_nat leD less_diff_conv2 mult_2)
  then have "m div step = 1" using assms(1) by simp
  moreover have "(stop - (start + step) + step - 1) div step = 0" using False assms by simp
  ultimately show ?thesis by (simp add: m_def)
qed

lemma length_py_range:
  "0 < step \<Longrightarrow> length (py_range start stop step) = (stop - start + step - 1) div step"
proof (induction start stop step rule: py_range.induct)
  case (1 start stop step)
  show ?case
  proof (cases "start < stop")
    case False
    then show ?thesis using "1.prems" by simp
  next
    case True
    then show ?thesis
      using "1.IH" "1.prems" ceil_div_step [of step start stop]
      by (simp add: py_range_Cons)
  qed
qed

lemma ceil_div_nat:
  fixes b :: nat
  assumes "0 < b"
  shows "nat \<lceil>real d / real b\<rceil> = (d + b - 1) div b"
proof -
  define n where "n = (d + b - 1) div b"
  have up: "d \<le> n * b"
  proof -
    have "d + b - 1 < (n + 1) * b"
      unfolding n_def using assms
      by (metis Suc_eq_plus1 dividend_less_div_times mult.commute mult_Suc)
    then show ?thesis using assms by simp
  qed
  have lo: "n * b < d + b"
  proof -
    have "n * b \<le> d + b - 1" unfolding n_def by simp
    then show ?thesis using assms by simp
  qed
  have "real d / real b \<le> real n"
    using up assms by (simp add: divide_le_eq flip: of_nat_mult)
  moreover have "real n - 1 < real d / real b"
  proof -
    have "real (n * b) < real (d + b)" using lo by (simp only: of_nat_less_iff)
    then have "(real n - 1) * real b < real d" by (simp add: algebra_simps)
    then show ?thesis using assms by (simp add: less_divide_eq)
  qed
  ultimately have "\<lceil>real d / real b\<rceil> = int n"
    by (intro ceiling_unique) simp_all
  then show ?thesis by (simp add: n_def)
qed

lemma contiguous_from_le: "contiguous_from a spans d \<Longrightarrow> a \<le> d"
proof (induction spans arbitrary: a)
  case Nil
  then show ?case by simp
next
  case (Cons x spans)
  obtain s e where x: "x = (s, e)" by (cases x)
  from Cons.prems x have "a < e" "contiguous_from e spans d" by simp_all
  with Cons.IH [of e] show ?case by simp
qed

lemma contiguous_chunk_spans_from:
  "0 < step \<Longrightarrow> a \<le> d \<Longrightarrow>
   contiguous_from a (map (\<lambda>s. (s, min (s + step) d)) (py_range a d step)) d"
proof (induction a d step rule: py_range.induct)
  case (1 start stop step)
  show ?case
  proof (cases "start < stop")
    case False
    then show ?thesis using "1.prems" by simp
  next
    case True
    show ?thesis
    proof (cases "start + step \<le> stop")
      case le: True
      then show ?thesis
        using True "1.IH" "1.prems" by (simp add: py_range_Cons min_def)
    next
      case False
      then show ?thesis
        using True "1.prems" by (simp add: py_range_Cons min_def)
    qed
  qed
qed

lemma slice_append:
  "s \<le> e \<Longrightarrow> e \<le> d \<Longrightarrow>
   slice audio s e @ take (d - e) (drop e audio) = take (d - s) (drop s audio)"
proof -
  assume a: "s \<le> e" "e \<le> d"
  have "take (d - s) (drop s audio) =
        take (e - s) (drop s audio) @ take (d - s - (e - s)) (drop (e - s) (drop s audio))"
    using a by (metis add_diff_inverse_nat diff_le_mono not_less take_add)
  then show ?thesis using a by (simp add: slice_def)
qed

lemma concat_slices:
  "contiguous_from a spans d \<Longrightarrow>
   concat (map (\<lambda>(s, e). slice audio s e) spans) = take (d - a) (drop a audio)"
proof (induction spans arbitrary: a)
  case Nil
  then show ?case by simp
next
  case (Cons x spans)
  obtain s e where x: "x = (s, e)" by (cases x)
  from Cons.prems x have c: "s = a" "s < e" "contiguous_from e spans d" by simp_all
  from c(3) have "e \<le> d" by (rule contiguous_from_le)
  with c Cons.IH [OF c(3)] x show ?case
    by (simp add: slice_append)
qed

section \<open>Partitioning: the claims\<close>

text \<open>
  C2. For a buffer of \<open>D\<close> milliseconds and a bound \<open>B > 0\<close>, \<^verbatim>\<open>chunk_audio\<close> returns
  (it does not raise) the slices of spans that start at 0, are each non-empty, each
  start where the one before ends, and end at \<open>D\<close>; so they are in strictly increasing
  time order, do not overlap and cover \<open>[0, D)\<close> exactly: put end to end, the chunks are
  the buffer. Their number is \<open>\<lceil>D / B\<rceil>\<close>, and a buffer of length 0 gives no chunk.
\<close>

theorem chunk_audio_covers:
  assumes "0 < B"
  shows "\<exists>chunks. chunk_audio audio B = Inr chunks
           \<and> chunks = map (\<lambda>(s, e). slice audio s e) (chunk_spans (length audio) B)
           \<and> contiguous_from 0 (chunk_spans (length audio) B) (length audio)
           \<and> concat chunks = audio
           \<and> length chunks = nat \<lceil>real (length audio) / real B\<rceil>
           \<and> (length audio = 0 \<longrightarrow> chunks = [])"
proof -
  let ?spans = "chunk_spans (length audio) B"
  let ?chunks = "map (\<lambda>(s, e). slice audio s e) ?spans"
  have c: "contiguous_from 0 ?spans (length audio)"
    unfolding chunk_spans_def using assms by (intro contiguous_chunk_spans_from) simp_all
  have "chunk_audio audio B = Inr ?chunks"
    using assms by (simp add: chunk_audio_def)
  moreover have "concat ?chunks = audio"
    using concat_slices [OF c, of audio] by simp
  moreover have "length ?chunks = nat \<lceil>real (length audio) / real B\<rceil>"
    using assms by (simp add: chunk_spans_def length_py_range ceil_div_nat)
  moreover have "length audio = 0 \<longrightarrow> ?chunks = []"
    by (simp add: chunk_spans_def)
  ultimately show ?thesis using c by simp
qed

theorem chunk_audio_covers_witness:
  "\<exists>chunks. chunk_audio [1, 2, 3, 4, 5, 6, 7 :: nat] 3 = Inr chunks
     \<and> chunks = [[1, 2, 3], [4, 5, 6], [7]]
     \<and> chunk_spans 7 3 = [(0, 3), (3, 6), (6, 7)]
     \<and> contiguous_from 0 (chunk_spans 7 3) 7
     \<and> concat chunks = [1, 2, 3, 4, 5, 6, 7]
     \<and> length chunks = nat \<lceil>real 7 / real 3\<rceil>"
proof -
  let ?audio = "[1, 2, 3, 4, 5, 6, 7 :: nat]"
  have pos: "(0::nat) < 3" by simp
  have l: "length ?audio = 7" by simp
  have r: "py_range 0 7 3 = [0, 3, 6]"
    by (simp add: py_range.simps)
  have s: "chunk_spans 7 3 = [(0, 3), (3, 6), (6, 7)]"
    by (simp add: chunk_spans_def r)
  have m: "map (\<lambda>(s, e). slice ?audio s e) [(0, 3), (3, 6), (6, 7)]
          = [[1, 2, 3], [4, 5, 6], [7]]"
    by (simp add: slice_def)
  note t = chunk_audio_covers [OF pos, of ?audio, unfolded l s m]
  then obtain chunks where c: "chunk_audio ?audio 3 = Inr chunks"
      "chunks = [[1, 2, 3], [4, 5, 6], [7]]"
      "contiguous_from 0 [(0, 3), (3, 6), (6, 7)] 7"
      "concat chunks = ?audio"
      "length chunks = nat \<lceil>real 7 / real 3\<rceil>"
    by (elim exE conjE)
  show ?thesis
    unfolding s by (intro exI [of _ chunks] conjI c refl)
qed

text \<open>
  C10. \<^verbatim>\<open>chunk_audio_by_size\<close> returns, for every buffer and every \<^verbatim>\<open>max_size_bytes\<close>,
  the list that \<^verbatim>\<open>chunk_audio\<close> returns for the bound 600000 ms.
\<close>

theorem chunk_audio_by_size_ignores_max_size:
  "chunk_audio audio 600000 = Inr (chunk_audio_by_size audio max_size_bytes)"
  by (simp add: chunk_audio_def chunk_audio_by_size_def chunk_spans_def comp_def Let_def)

section \<open>Reassembly: proofs\<close>

lemma adjust_loop_eq:
  "adjust_loop segments time_offset all_segments =
     all_segments @ map (\<lambda>s. \<lparr>seg_start = seg_start s + time_offset,
                                seg_end = seg_end s + time_offset, seg_text = seg_text s\<rparr>) segments"
  by (induction segments arbitrary: all_segments) simp_all

lemma merge_loop_spec_shift:
  "\<forall>c \<in> set chunks. get_segments c = [] \<longrightarrow> get_duration c = None \<or> get_duration c = Some 0 \<Longrightarrow>
   fst (merge_loop chunks (all_segments, time_offset)) = all_segments @ spec_shift time_offset chunks"
proof (induction chunks arbitrary: all_segments time_offset)
  case Nil
  then show ?case by simp
next
  case (Cons c chunks)
  then show ?case
    by (cases "get_duration c") (auto simp: adjust_loop_eq Let_def)
qed

lemma reassemble_success:
  assumes "filter is_success chunk_results \<noteq> []"
  shows "reassemble_transcription chunk_results =
     empty_dict\<lparr>
       k_success := Some True,
       k_text := Some (py_join '' '' (map get_text
                   (filter (\<lambda>chunk. truthy_str (k_text chunk)) (filter is_success chunk_results)))),
       k_segments := Some (fst (merge_loop (filter is_success chunk_results) ([], 0))),
       k_total_chunks := Some (length chunk_results),
       k_successful_chunks := Some (length (filter is_success chunk_results)),
       k_failed_chunks := Some (length (filter (\<lambda>r. \<not> is_success r) chunk_results)),
       k_language := Some (case filter is_success chunk_results of
                             c # _ \<Rightarrow> (case k_language c of Some l \<Rightarrow> l | None \<Rightarrow> None)
                           | [] \<Rightarrow> Some ''unknown''),
       k_total_duration :=
         Some (if snd (merge_loop (filter is_success chunk_results) ([], 0)) > 0
               then Some (snd (merge_loop (filter is_success chunk_results) ([], 0)))
               else None)\<rparr>"
  using assms by (simp add: reassemble_transcription_def Let_def split_beta)

lemma reassemble_failure:
  assumes "filter is_success chunk_results = []"
  shows "reassemble_transcription chunk_results =
     empty_dict\<lparr>
       k_success := Some False,
       k_error := Some ''All chunks failed to transcribe'',
       k_failed_chunks := Some (length chunk_results),
       k_chunk_errors := Some (map chunk_error_of chunk_results)\<rparr>"
proof -
  from assms have "filter (\<lambda>r. \<not> is_success r) chunk_results = chunk_results"
    by (simp add: filter_empty_conv)
  with assms show ?thesis
    by (simp add: reassemble_transcription_def Let_def)
qed

lemmas chunk_defs =
  chunk_ok_def chunk_failed_def seg_def empty_dict_def is_success_def get_segments_def
  get_duration_def get_text_def truthy_str_def chunk_error_of_def

section \<open>Reassembly: the claims\<close>

text \<open>
  C4. The result of \<^verbatim>\<open>reassemble_transcription\<close> has \<^verbatim>\<open>success = True\<close> exactly when at
  least one input result is success-tagged, and \<^verbatim>\<open>success = False\<close> otherwise. When
  there is a success, also next to failures, \<^verbatim>\<open>successful_chunks\<close> and \<^verbatim>\<open>failed_chunks\<close>
  are the sizes of the two parts of the input, which add up to its length.
\<close>

theorem success_iff_some_chunk_succeeded:
  "(k_success (reassemble_transcription rs) = Some True \<longleftrightarrow> (\<exists>r \<in> set rs. is_success r))
   \<and> (k_success (reassemble_transcription rs) = Some False \<longleftrightarrow> \<not> (\<exists>r \<in> set rs. is_success r))
   \<and> ((\<exists>r \<in> set rs. is_success r) \<longrightarrow>
        k_successful_chunks (reassemble_transcription rs) = Some (length (filter is_success rs))
        \<and> k_failed_chunks (reassemble_transcription rs)
            = Some (length (filter (\<lambda>r. \<not> is_success r) rs)))
   \<and> length (filter is_success rs) + length (filter (\<lambda>r. \<not> is_success r) rs) = length rs"
proof (cases "filter is_success rs = []")
  case True
  then have "\<not> (\<exists>r \<in> set rs. is_success r)"
    by (simp add: filter_empty_conv)
  then show ?thesis
    using reassemble_failure [OF True] sum_length_filter_compl [of is_success rs]
    by (simp add: empty_dict_def)
next
  case False
  then have "\<exists>r \<in> set rs. is_success r"
    by (simp add: filter_empty_conv)
  then show ?thesis
    using reassemble_success [OF False] sum_length_filter_compl [of is_success rs]
    by (simp add: empty_dict_def)
qed

theorem success_iff_some_chunk_succeeded_witness:
  "(\<exists>r \<in> set [chunk_ok 0 ''a'' None [], chunk_failed 1 ''boom'', chunk_ok 2 ''c'' None []].
      is_success (r :: segment pydict))
   \<and> k_success (reassemble_transcription
        [chunk_ok 0 ''a'' None [], chunk_failed 1 ''boom'', chunk_ok 2 ''c'' None []]) = Some True
   \<and> k_successful_chunks (reassemble_transcription
        [chunk_ok 0 ''a'' None [], chunk_failed 1 ''boom'', chunk_ok 2 ''c'' None []]) = Some 2
   \<and> k_failed_chunks (reassemble_transcription
        [chunk_ok 0 ''a'' None [], chunk_failed 1 ''boom'', chunk_ok 2 ''c'' None []]) = Some 1"
proof -
  let ?rs = "[chunk_ok 0 ''a'' None [], chunk_failed 1 ''boom'', chunk_ok 2 ''c'' None []]
               :: segment pydict list"
  have s: "\<exists>r \<in> set ?rs. is_success r"
    by (simp add: chunk_defs)
  have f: "filter is_success ?rs = [chunk_ok 0 ''a'' None [], chunk_ok 2 ''c'' None []]"
    "filter (\<lambda>r. \<not> is_success r) ?rs = [chunk_failed 1 ''boom'']"
    by (simp_all add: chunk_defs)
  note t = success_iff_some_chunk_succeeded [of ?rs]
  from t s have a: "k_success (reassemble_transcription ?rs) = Some True"
    by blast
  from t s have "k_successful_chunks (reassemble_transcription ?rs)
        = Some (length (filter is_success ?rs))"
    and "k_failed_chunks (reassemble_transcription ?rs)
        = Some (length (filter (\<lambda>r. \<not> is_success r) ?rs))"
    by blast+
  then have "k_successful_chunks (reassemble_transcription ?rs) = Some 2"
    and "k_failed_chunks (reassemble_transcription ?rs) = Some 1"
    unfolding f by simp_all
  with s a show ?thesis by blast
qed

text \<open>
  C5, as stated: when every result is failure-tagged the returned \<^verbatim>\<open>text\<close> is the empty
  string. The dictionary returned on total failure has no \<^verbatim>\<open>text\<close> entry at all.
\<close>

theorem total_failure_text_counterexample:
  "k_text (reassemble_transcription [chunk_failed 0 ''boom'']) \<noteq> Some ''''"
  by (simp add: reassemble_transcription_def chunk_defs)

text \<open>
  C5, amended. When every one of the \<open>N\<close> results is failure-tagged, the result has
  \<^verbatim>\<open>success = False\<close>, the message \<^verbatim>\<open>'All chunks failed to transcribe'\<close> under \<^verbatim>\<open>error\<close>,
  \<^verbatim>\<open>failed_chunks = N\<close> and a \<^verbatim>\<open>chunk_errors\<close> list of exactly \<open>N\<close> entries, entry \<open>i\<close>
  carrying the index of result \<open>i\<close> (\<^verbatim>\<open>'unknown'\<close> when it has none) and its error message
  (\<^verbatim>\<open>'unknown error'\<close> when it has none). Nothing is merged: the result has no
  \<^verbatim>\<open>text\<close>, \<^verbatim>\<open>segments\<close>, \<^verbatim>\<open>language\<close> or \<^verbatim>\<open>total_duration\<close> entry.
\<close>

theorem reassemble_total_failure:
  assumes "\<forall>r \<in> set rs. \<not> is_success r"
  shows "k_success (reassemble_transcription rs) = Some False
    \<and> k_error (reassemble_transcription rs) = Some ''All chunks failed to transcribe''
    \<and> k_failed_chunks (reassemble_transcription rs) = Some (length rs)
    \<and> (\<exists>errs. k_chunk_errors (reassemble_transcription rs) = Some errs
          \<and> length errs = length rs
          \<and> (\<forall>i < length rs.
                ce_index (errs ! i) = (case k_chunk_index (rs ! i) of
                                         Some n \<Rightarrow> IntV n | None \<Rightarrow> StrV ''unknown'')
                \<and> ce_error (errs ! i) = (case k_error (rs ! i) of
                                           Some e \<Rightarrow> e | None \<Rightarrow> ''unknown error'')))
    \<and> k_text (reassemble_transcription rs) = None
    \<and> k_segments (reassemble_transcription rs) = None
    \<and> k_language (reassemble_transcription rs) = None
    \<and> k_total_duration (reassemble_transcription rs) = None"
proof -
  from assms have "filter is_success rs = []"
    by (simp add: filter_empty_conv)
  from reassemble_failure [OF this] show ?thesis
    by (simp add: empty_dict_def chunk_error_of_def)
qed

theorem reassemble_total_failure_witness:
  "k_success (reassemble_transcription [chunk_failed 0 ''boom'', chunk_failed 1 ''bang''])
       = Some False
   \<and> k_failed_chunks (reassemble_transcription [chunk_failed 0 ''boom'', chunk_failed 1 ''bang''])
       = Some 2
   \<and> k_chunk_errors (reassemble_transcription [chunk_failed 0 ''boom'', chunk_failed 1 ''bang''])
       = Some [\<lparr>ce_index = IntV 0, ce_error = ''Error: boom''\<rparr>,
               \<lparr>ce_index = IntV 1, ce_error = ''Error: bang''\<rparr>]
   \<and> k_text (reassemble_transcription [chunk_failed 0 ''boom'', chunk_failed 1 ''bang'']) = None"
proof -
  let ?rs = "[chunk_failed 0 ''boom'', chunk_failed 1 ''bang''] :: segment pydict list"
  have h: "\<forall>r \<in> set ?rs. \<not> is_success r"
    by (simp add: chunk_defs)
  have e: "k_chunk_errors (reassemble_transcription ?rs)
       = Some [\<lparr>ce_index = IntV 0, ce_error = ''Error: boom''\<rparr>,
               \<lparr>ce_index = IntV 1, ce_error = ''Error: bang''\<rparr>]"
    by (simp add: reassemble_transcription_def chunk_defs)
  from reassemble_total_failure [OF h] have
    "k_success (reassemble_transcription ?rs) = Some False"
    "k_failed_chunks (reassemble_transcription ?rs) = Some (length ?rs)"
    "k_text (reassemble_transcription ?rs) = None"
    by blast+
  then have "k_success (reassemble_transcription ?rs) = Some False"
    "k_failed_chunks (reassemble_transcription ?rs) = Some 2"
    "k_text (reassemble_transcription ?rs) = None"
    by simp_all
  with e show ?thesis by blast
qed

lemma nonempty_texts:
  "map get_text (filter (\<lambda>chunk. truthy_str (k_text chunk)) chunks)
     = filter (\<lambda>t. t \<noteq> []) (map get_text chunks)"
  by (induction chunks) (auto simp: get_text_def truthy_str_def split: option.splits)

lemma in_index_order_sorted:
  "sorted (map index_key rs) \<Longrightarrow> in_index_order (filter P rs) = filter P rs"
  unfolding in_index_order_def
  by (intro sort_key_id_if_sorted sorted_filter)

text \<open>
  C6, as stated: the merged text is the successful chunks' texts sorted by chunk index,
  not by position in the input list. The code never sorts: it joins them in list order.
\<close>

theorem merged_text_index_order_counterexample:
  "k_text (reassemble_transcription [chunk_ok 1 ''b'' None [], chunk_ok 0 ''a'' None []])
     = Some ''b a''
   \<and> spec_text [chunk_ok 1 ''b'' None [], chunk_ok 0 ''a'' None []] = ''a b''
   \<and> k_text (reassemble_transcription [chunk_ok 1 ''b'' None [], chunk_ok 0 ''a'' None []])
     \<noteq> Some (spec_text [chunk_ok 1 ''b'' None [], chunk_ok 0 ''a'' None []])"
  by (simp add: reassemble_transcription_def spec_text_def in_index_order_def index_key_def
      chunk_defs)

text \<open>
  C6, amended. When at least one result is a success, the merged text is the successful
  chunks' \<^verbatim>\<open>text\<close> fields that are not empty (or missing), in the order of the input
  list, joined by a single space. For an input list in ascending chunk-index order, as
  the runner returns it, that is ascending chunk-index order.
\<close>

theorem merged_text_list_order:
  assumes "\<exists>r \<in> set rs. is_success r"
  shows "k_text (reassemble_transcription rs)
           = Some (py_join '' '' (filter (\<lambda>t. t \<noteq> []) (map get_text (filter is_success rs))))
     \<and> (sorted (map index_key rs) \<longrightarrow>
          k_text (reassemble_transcription rs)
            = Some (py_join '' '' (filter (\<lambda>t. t \<noteq> [])
                      (map get_text (in_index_order (filter is_success rs))))))"
proof -
  from assms have "filter is_success rs \<noteq> []"
    by (simp add: filter_empty_conv)
  from reassemble_success [OF this]
  have "k_text (reassemble_transcription rs)
          = Some (py_join '' '' (map get_text
                    (filter (\<lambda>chunk. truthy_str (k_text chunk)) (filter is_success rs))))"
    by (simp add: empty_dict_def del: filter_filter)
  then have "k_text (reassemble_transcription rs)
          = Some (py_join '' '' (filter (\<lambda>t. t \<noteq> []) (map get_text (filter is_success rs))))"
    unfolding nonempty_texts .
  then show ?thesis
    by (simp add: in_index_order_sorted)
qed

theorem merged_text_list_order_witness:
  "(\<exists>r \<in> set [chunk_ok 0 ''a'' None [], chunk_failed 1 ''boom'', chunk_ok 2 '''' None [],
               chunk_ok 3 ''d'' None [] :: segment pydict]. is_success r)
   \<and> sorted (map index_key [chunk_ok 0 ''a'' None [], chunk_failed 1 ''boom'',
               chunk_ok 2 '''' None [], chunk_ok 3 ''d'' None [] :: segment pydict])
   \<and> k_text (reassemble_transcription [chunk_ok 0 ''a'' None [], chunk_failed 1 ''boom'',
               chunk_ok 2 '''' None [], chunk_ok 3 ''d'' None []]) = Some ''a d''"
proof -
  let ?rs = "[chunk_ok 0 ''a'' None [], chunk_failed 1 ''boom'', chunk_ok 2 '''' None [],
              chunk_ok 3 ''d'' None []] :: segment pydict list"
  have h: "\<exists>r \<in> set ?rs. is_success r"
    by (simp add: chunk_defs)
  have s: "sorted (map index_key ?rs)"
    by (simp add: index_key_def chunk_defs)
  have f: "filter (\<lambda>t. t \<noteq> []) (map get_text (filter is_success ?rs)) = [''a'', ''d'']"
    by (simp add: chunk_defs)
  from merged_text_list_order [OF h] have
    "k_text (reassemble_transcription ?rs)
       = Some (py_join '' '' (filter (\<lambda>t. t \<noteq> []) (map get_text (filter is_success ?rs))))"
    by blast
  then have "k_text (reassemble_transcription ?rs) = Some ''a d''"
    unfolding f by simp
  with h s show ?thesis by blast
qed

text \<open>
  C1, as stated: the successful chunks are taken in index order, and \<open>time_offset\<close>
  advances by every duration that is present. The loop takes the chunks in the order of
  the input list, whatever their indices are.
\<close>

theorem merged_segments_index_order_counterexample:
  "k_segments (reassemble_transcription
      [chunk_ok 1 ''b'' (Some 120) [seg 0 10 ''b''], chunk_ok 0 ''a'' (Some 300) [seg 0 10 ''a'']])
     = Some [seg 0 10 ''b'', seg 120 130 ''a'']
   \<and> spec_segments
      [chunk_ok 1 ''b'' (Some 120) [seg 0 10 ''b''], chunk_ok 0 ''a'' (Some 300) [seg 0 10 ''a'']]
     = [seg 0 10 ''a'', seg 300 310 ''b'']
   \<and> k_segments (reassemble_transcription
      [chunk_ok 1 ''b'' (Some 120) [seg 0 10 ''b''], chunk_ok 0 ''a'' (Some 300) [seg 0 10 ''a'']])
     \<noteq> Some (spec_segments
      [chunk_ok 1 ''b'' (Some 120) [seg 0 10 ''b''], chunk_ok 0 ''a'' (Some 300) [seg 0 10 ''a'']])"
  by (simp add: reassemble_transcription_def spec_segments_def in_index_order_def index_key_def
      chunk_defs)

text \<open>
  The other way in which the loop departs from the sentence, on a list that is in index
  order: the duration of a successful chunk without segments is not added, because the
  update of \<open>time_offset\<close> stands inside \<^verbatim>\<open>if segments:\<close>. The segment of the chunk after
  a silent chunk of 300 s starts at 0, and the total duration is 120 s.
\<close>

lemma duration_without_segments_skipped:
  "k_segments (reassemble_transcription
      [chunk_ok 0 ''a'' (Some 300) [], chunk_ok 1 ''b'' (Some 120) [seg 0 10 ''b'']])
     = Some [seg 0 10 ''b'']
   \<and> k_total_duration (reassemble_transcription
      [chunk_ok 0 ''a'' (Some 300) [], chunk_ok 1 ''b'' (Some 120) [seg 0 10 ''b'']])
     = Some (Some 120)
   \<and> spec_segments
      [chunk_ok 0 ''a'' (Some 300) [], chunk_ok 1 ''b'' (Some 120) [seg 0 10 ''b'']]
     = [seg 300 310 ''b'']"
  by (simp add: reassemble_transcription_def spec_segments_def in_index_order_def index_key_def
      chunk_defs)

text \<open>
  C1, amended. When at least one result is a success and every successful chunk that
  reports a duration other than 0 has at least one segment, the merged segment list is
  computed as the sentence says, with the successful chunks taken in the order of the
  input list: \<open>time_offset\<close> starts at 0; every segment of a chunk is emitted with its start
  and end increased by the current \<open>time_offset\<close> and its text unchanged; after the chunk,
  \<open>time_offset\<close> advances by the chunk's duration when one is present and is left
  unchanged otherwise.
\<close>

theorem merged_segments_list_order:
  assumes "\<exists>r \<in> set rs. is_success r"
    and "\<forall>r \<in> set rs. is_success r \<longrightarrow> get_segments r = [] \<longrightarrow>
           get_duration r = None \<or> get_duration r = Some 0"
  shows "k_segments (reassemble_transcription rs) = Some (spec_shift 0 (filter is_success rs))"
proof -
  from assms(1) have "filter is_success rs \<noteq> []"
    by (simp add: filter_empty_conv)
  from reassemble_success [OF this]
  have "k_segments (reassemble_transcription rs)
          = Some (fst (merge_loop (filter is_success rs) ([], 0)))"
    by (simp add: empty_dict_def)
  moreover from assms(2)
  have "fst (merge_loop (filter is_success rs) ([], 0)) = [] @ spec_shift 0 (filter is_success rs)"
    by (intro merge_loop_spec_shift) simp
  ultimately show ?thesis by simp
qed

theorem merged_segments_list_order_witness:
  "(\<exists>r \<in> set [chunk_ok 0 ''a'' (Some 300) [seg 0 10 ''a''],
               chunk_ok 1 ''b'' (Some 300) [seg 0 10 ''b''],
               chunk_ok 2 ''c'' (Some 120) [seg 0 10 ''c'']]. is_success r)
   \<and> k_segments (reassemble_transcription
              [chunk_ok 0 ''a'' (Some 300) [seg 0 10 ''a''],
               chunk_ok 1 ''b'' (Some 300) [seg 0 10 ''b''],
               chunk_ok 2 ''c'' (Some 120) [seg 0 10 ''c'']])
       = Some [seg 0 10 ''a'', seg 300 310 ''b'', seg 600 610 ''c'']"
proof -
  let ?rs = "[chunk_ok 0 ''a'' (Some 300) [seg 0 10 ''a''],
              chunk_ok 1 ''b'' (Some 300) [seg 0 10 ''b''],
              chunk_ok 2 ''c'' (Some 120) [seg 0 10 ''c'']]"
  have h1: "\<exists>r \<in> set ?rs. is_success r"
    by (simp add: chunk_defs)
  have h2: "\<forall>r \<in> set ?rs. is_success r \<longrightarrow> get_segments r = [] \<longrightarrow>
              get_duration r = None \<or> get_duration r = Some 0"
    by (simp add: chunk_defs)
  have e: "spec_shift 0 (filter is_success ?rs)
             = [seg 0 10 ''a'', seg 300 310 ''b'', seg 600 610 ''c'']"
    by (simp add: chunk_defs)
  from merged_segments_list_order [OF h1 h2] e
  have "k_segments (reassemble_transcription ?rs)
          = Some [seg 0 10 ''a'', seg 300 310 ''b'', seg 600 610 ''c'']"
    by simp
  with h1 show ?thesis by blast
qed

section \<open>The runner: proofs\<close>

lemma chunks_loop_results:
  "fst (chunks_loop self api language cb total_chunks i paths (results, ns)) =
     results @ map (\<lambda>(k, p). (transcribe_audio self (api k) p language None)
                               \<lparr>k_chunk_index := Some k\<rparr>) (enumerate i paths)"
  by (induction paths arbitrary: i results ns) (simp_all add: Let_def)

lemma runner_results:
  "fst (transcribe_chunks_sequential self api paths language cb notes) =
     map (\<lambda>(k, p). (transcribe_audio self (api k) p language None)\<lparr>k_chunk_index := Some k\<rparr>)
       (enumerate 0 paths)"
  by (simp add: transcribe_chunks_sequential_def chunks_loop_results)

lemma runner_nth:
  assumes "i < length paths"
  shows "fst (transcribe_chunks_sequential self api paths language cb notes) ! i =
     (transcribe_audio self (api i) (paths ! i) language None)\<lparr>k_chunk_index := Some i\<rparr>"
  using assms by (simp add: runner_results nth_enumerate_eq)

lemma runner_indices:
  "map k_chunk_index (fst (transcribe_chunks_sequential self api paths language cb notes))
     = map Some [0 ..< length paths]"
proof (rule nth_equalityI)
  show "length (map k_chunk_index
          (fst (transcribe_chunks_sequential self api paths language cb notes)))
        = length (map Some [0 ..< length paths])"
    by (simp add: runner_results)
next
  fix i
  assume "i < length (map k_chunk_index
          (fst (transcribe_chunks_sequential self api paths language cb notes)))"
  then have i: "i < length paths"
    by (simp add: runner_results)
  then show "map k_chunk_index
          (fst (transcribe_chunks_sequential self api paths language cb notes)) ! i
        = map Some [0 ..< length paths] ! i"
    by (simp add: runner_results nth_enumerate_eq)
qed

section \<open>The runner: the claim\<close>

text \<open>
  C3. For every list of \<open>N\<close> chunk paths and whatever the backend does at each call,
  \<^verbatim>\<open>transcribe_chunks_sequential\<close> returns (the model has no path on which it raises)
  exactly \<open>N\<close> results; the result at position \<open>i\<close> carries \<^verbatim>\<open>chunk_index = i\<close>, so the
  indices are \<open>0, \<dots>, N - 1\<close> in order; it is what \<^verbatim>\<open>transcribe_audio\<close> makes of call
  \<open>i\<close> on path \<open>i\<close> alone, whatever happened to the other chunks: failure-tagged with the
  message \<^verbatim>\<open>'Error: ' + str(e)\<close> when that call raises, success-tagged when it returns.
\<close>

theorem runner_index_integrity:
  "length (fst (transcribe_chunks_sequential self api paths language cb notes)) = length paths
   \<and> map k_chunk_index (fst (transcribe_chunks_sequential self api paths language cb notes))
       = map Some [0 ..< length paths]
   \<and> (\<forall>i < length paths.
        fst (transcribe_chunks_sequential self api paths language cb notes) ! i
          = (transcribe_audio self (api i) (paths ! i) language None)\<lparr>k_chunk_index := Some i\<rparr>
        \<and> (case api i (create_params self (paths ! i) language None) of
             Raised msg \<Rightarrow>
               k_success (fst (transcribe_chunks_sequential self api paths language cb notes) ! i)
                 = Some False
               \<and> k_error (fst (transcribe_chunks_sequential self api paths language cb notes) ! i)
                 = Some (''Error: '' @ msg)
           | Returned response \<Rightarrow>
               k_success (fst (transcribe_chunks_sequential self api paths language cb notes) ! i)
                 = Some True
               \<and> k_error (fst (transcribe_chunks_sequential self api paths language cb notes) ! i)
                 = None))"
proof (intro conjI allI impI)
  show "length (fst (transcribe_chunks_sequential self api paths language cb notes)) = length paths"
    by (simp add: runner_results)
  show "map k_chunk_index (fst (transcribe_chunks_sequential self api paths language cb notes))
       = map Some [0 ..< length paths]"
    by (rule runner_indices)
next
  fix i assume i: "i < length paths"
  let ?r = "fst (transcribe_chunks_sequential self api paths language cb notes) ! i"
  show r: "?r = (transcribe_audio self (api i) (paths ! i) language None)\<lparr>k_chunk_index := Some i\<rparr>"
    using i by (rule runner_nth)
  show "case api i (create_params self (paths ! i) language None) of
          Raised msg \<Rightarrow> k_success ?r = Some False \<and> k_error ?r = Some (''Error: '' @ msg)
        | Returned response \<Rightarrow> k_success ?r = Some True \<and> k_error ?r = None"
    unfolding r
    by (cases "api i (create_params self (paths ! i) language None)")
      (simp_all add: transcribe_audio_def empty_dict_def)
qed

theorem runner_index_integrity_witness:
  "length (fst (transcribe_chunks_sequential svc api_second_fails
             [''a.mp3'', ''b.mp3'', ''c.mp3''] None False [])) = 3
   \<and> map k_chunk_index (fst (transcribe_chunks_sequential svc api_second_fails
             [''a.mp3'', ''b.mp3'', ''c.mp3''] None False [])) = [Some 0, Some 1, Some 2]
   \<and> k_success (fst (transcribe_chunks_sequential svc api_second_fails
             [''a.mp3'', ''b.mp3'', ''c.mp3''] None False []) ! 0) = Some True
   \<and> k_success (fst (transcribe_chunks_sequential svc api_second_fails
             [''a.mp3'', ''b.mp3'', ''c.mp3''] None False []) ! 1) = Some False
   \<and> k_error (fst (transcribe_chunks_sequential svc api_second_fails
             [''a.mp3'', ''b.mp3'', ''c.mp3''] None False []) ! 1) = Some ''Error: timeout''
   \<and> k_success (fst (transcribe_chunks_sequential svc api_second_fails
             [''a.mp3'', ''b.mp3'', ''c.mp3''] None False []) ! 2) = Some True"
proof -
  let ?paths = "[''a.mp3'', ''b.mp3'', ''c.mp3'']"
  let ?rs = "fst (transcribe_chunks_sequential svc api_second_fails ?paths None False [])"
  note t = runner_index_integrity [of svc api_second_fails ?paths None False "[]"]
  have l: "length ?paths = 3" by simp
  from t have len: "length ?rs = 3" by simp
  from t have idx: "map k_chunk_index ?rs = [Some 0, Some 1, Some 2]"
    by (simp add: upt_rec [of 0] upt_rec [of 1] upt_rec [of 2])
  from t have each: "\<forall>i < 3.
      (case api_second_fails i (create_params svc (?paths ! i) None None) of
         Raised msg \<Rightarrow> k_success (?rs ! i) = Some False \<and> k_error (?rs ! i) = Some (''Error: '' @ msg)
       | Returned response \<Rightarrow> k_success (?rs ! i) = Some True \<and> k_error (?rs ! i) = None)"
    unfolding l by blast
  have r0: "k_success (?rs ! 0) = Some True"
    using each [rule_format, of 0] by (simp add: api_second_fails_def)
  have r1: "k_success (?rs ! 1) = Some False" "k_error (?rs ! 1) = Some ''Error: timeout''"
    using each [rule_format, of 1] by (simp_all add: api_second_fails_def)
  have r2: "k_success (?rs ! 2) = Some True"
    using each [rule_format, of 2] by (simp add: api_second_fails_def)
  from len idx r0 r1 r2 show ?thesis by blast
qed

section \<open>The entry point: proofs\<close>

lemma reassemble_shape:
  "\<exists>r \<in> set rs. is_success r \<Longrightarrow> has_transcript_shape (reassemble_transcription rs)"
proof -
  assume "\<exists>r \<in> set rs. is_success r"
  then have "filter is_success rs \<noteq> []"
    by (simp add: filter_empty_conv)
  from reassemble_success [OF this] show ?thesis
    by (simp add: has_transcript_shape_def empty_dict_def)
qed

lemma transcribe_file_single:
  "fst (transcribe_file self api [p] language cb) = transcribe_audio self (api 0) p language None"
  by (simp add: transcribe_file_def Let_def)

lemma transcribe_file_many:
  "2 \<le> length paths \<Longrightarrow>
   fst (transcribe_file self api paths language cb)
     = reassemble_transcription (fst (transcribe_chunks_sequential self api paths language cb []))"
proof -
  assume l: "2 \<le> length paths"
  then have "paths \<noteq> []" "length paths \<noteq> 1" by auto
  moreover have "fst (transcribe_chunks_sequential self api paths language cb
            (progress_callback cb (1 / 10) ''Starting transcription...'' []))
        = fst (transcribe_chunks_sequential self api paths language cb [])"
    by (simp add: runner_results)
  ultimately show ?thesis
    by (simp add: transcribe_file_def Let_def split_beta)
qed

section \<open>The entry point: the claims\<close>

text \<open>
  C7, as stated: for a one-element chunk list the result carries \<^verbatim>\<open>success\<close>, \<^verbatim>\<open>text\<close>,
  \<^verbatim>\<open>language\<close>, \<^verbatim>\<open>segments\<close>, \<^verbatim>\<open>total_chunks\<close>, \<^verbatim>\<open>successful_chunks\<close>, \<^verbatim>\<open>failed_chunks\<close>
  and \<^verbatim>\<open>total_duration\<close>. The result of a successful single-chunk call has no
  \<^verbatim>\<open>total_chunks\<close>, \<^verbatim>\<open>successful_chunks\<close>, \<^verbatim>\<open>failed_chunks\<close> or \<^verbatim>\<open>total_duration\<close> entry.
\<close>

theorem single_chunk_shape_counterexample:
  "k_success (fst (transcribe_file svc api_second_fails [''a.mp3''] None False)) = Some True
   \<and> k_total_chunks (fst (transcribe_file svc api_second_fails [''a.mp3''] None False)) = None
   \<and> k_successful_chunks (fst (transcribe_file svc api_second_fails [''a.mp3''] None False)) = None
   \<and> k_failed_chunks (fst (transcribe_file svc api_second_fails [''a.mp3''] None False)) = None
   \<and> k_total_duration (fst (transcribe_file svc api_second_fails [''a.mp3''] None False)) = None
   \<and> \<not> has_transcript_shape (fst (transcribe_file svc api_second_fails [''a.mp3''] None False))"
  by (simp add: transcribe_file_def transcribe_audio_def api_second_fails_def
      has_transcript_shape_def empty_dict_def Let_def)

text \<open>
  C7, amended. For a one-element chunk list \<^verbatim>\<open>transcribe_file\<close> returns the dictionary
  of \<^verbatim>\<open>transcribe_audio\<close> for that chunk as it is: when the backend returns, it carries
  \<^verbatim>\<open>success = True\<close>, \<^verbatim>\<open>text\<close>, \<^verbatim>\<open>language\<close>, \<^verbatim>\<open>duration\<close>, \<^verbatim>\<open>file_path\<close> and \<^verbatim>\<open>segments\<close>,
  the segments being the backend's own, unshifted (the empty list when the response has
  none); when the backend raises, it carries \<^verbatim>\<open>success = False\<close>, \<^verbatim>\<open>error\<close> and
  \<^verbatim>\<open>file_path\<close>. In both cases it has no \<^verbatim>\<open>total_chunks\<close>, \<^verbatim>\<open>successful_chunks\<close>,
  \<^verbatim>\<open>failed_chunks\<close>, \<^verbatim>\<open>total_duration\<close> or \<^verbatim>\<open>chunk_index\<close> entry. For two or more chunks
  the result is that of \<^verbatim>\<open>reassemble_transcription\<close> on the runner's results, which has
  the \<^verbatim>\<open>TranscriptResult\<close> shape when at least one call of the backend returns.
\<close>

theorem transcribe_file_shapes:
  "fst (transcribe_file self api [p] language cb) = transcribe_audio self (api 0) p language None
   \<and> (case api 0 (create_params self p language None) of
         Returned response \<Rightarrow>
           k_success (fst (transcribe_file self api [p] language cb)) = Some True
           \<and> k_text (fst (transcribe_file self api [p] language cb))
               = Some (case resp_text response of Some t \<Rightarrow> t | None \<Rightarrow> resp_str response)
           \<and> k_language (fst (transcribe_file self api [p] language cb)) \<noteq> None
           \<and> k_duration (fst (transcribe_file self api [p] language cb))
               = Some (resp_duration response)
           \<and> k_segments (fst (transcribe_file self api [p] language cb))
               = Some (case resp_segments response of Some segs \<Rightarrow> segs | None \<Rightarrow> [])
           \<and> k_file_path (fst (transcribe_file self api [p] language cb)) = Some p
           \<and> k_error (fst (transcribe_file self api [p] language cb)) = None
       | Raised msg \<Rightarrow>
           k_success (fst (transcribe_file self api [p] language cb)) = Some False
           \<and> k_error (fst (transcribe_file self api [p] language cb)) = Some (''Error: '' @ msg)
           \<and> k_file_path (fst (transcribe_file self api [p] language cb)) = Some p
           \<and> k_text (fst (transcribe_file self api [p] language cb)) = None
           \<and> k_segments (fst (transcribe_file self api [p] language cb)) = None)
   \<and> k_total_chunks (fst (transcribe_file self api [p] language cb)) = None
   \<and> k_successful_chunks (fst (transcribe_file self api [p] language cb)) = None
   \<and> k_failed_chunks (fst (transcribe_file self api [p] language cb)) = None
   \<and> k_total_duration (fst (transcribe_file self api [p] language cb)) = None
   \<and> k_chunk_index (fst (transcribe_file self api [p] language cb)) = None
   \<and> (2 \<le> length paths \<longrightarrow>
         fst (transcribe_file self api paths language cb)
           = reassemble_transcription
               (fst (transcribe_chunks_sequential self api paths language cb []))
         \<and> ((\<exists>i < length paths. \<exists>response.
                api i (create_params self (paths ! i) language None) = Returned response)
              \<longrightarrow> has_transcript_shape (fst (transcribe_file self api paths language cb))))"
proof -
  let ?r = "fst (transcribe_file self api [p] language cb)"
  have r: "?r = transcribe_audio self (api 0) p language None"
    by (rule transcribe_file_single)
  have c: "case api 0 (create_params self p language None) of
         Returned response \<Rightarrow>
           k_success ?r = Some True
           \<and> k_text ?r = Some (case resp_text response of Some t \<Rightarrow> t | None \<Rightarrow> resp_str response)
           \<and> k_language ?r \<noteq> None
           \<and> k_duration ?r = Some (resp_duration response)
           \<and> k_segments ?r = Some (case resp_segments response of Some segs \<Rightarrow> segs | None \<Rightarrow> [])
           \<and> k_file_path ?r = Some p
           \<and> k_error ?r = None
       | Raised msg \<Rightarrow>
           k_success ?r = Some False
           \<and> k_error ?r = Some (''Error: '' @ msg)
           \<and> k_file_path ?r = Some p
           \<and> k_text ?r = None
           \<and> k_segments ?r = None"
    unfolding r
    by (cases "api 0 (create_params self p language None)")
      (simp_all add: transcribe_audio_def empty_dict_def Let_def)
  have n: "k_total_chunks ?r = None" "k_successful_chunks ?r = None" "k_failed_chunks ?r = None"
    "k_total_duration ?r = None" "k_chunk_index ?r = None"
    unfolding r
    by (cases "api 0 (create_params self p language None)";
        simp add: transcribe_audio_def empty_dict_def Let_def)+
  have m: "2 \<le> length paths \<longrightarrow>
         fst (transcribe_file self api paths language cb)
           = reassemble_transcription
               (fst (transcribe_chunks_sequential self api paths language cb []))
         \<and> ((\<exists>i < length paths. \<exists>response.
                api i (create_params self (paths ! i) language None) = Returned response)
              \<longrightarrow> has_transcript_shape (fst (transcribe_file self api paths language cb)))"
  proof (intro impI conjI)
    assume l: "2 \<le> length paths"
    then show e: "fst (transcribe_file self api paths language cb)
           = reassemble_transcription
               (fst (transcribe_chunks_sequential self api paths language cb []))"
      by (rule transcribe_file_many)
    assume "\<exists>i < length paths. \<exists>response.
                api i (create_params self (paths ! i) language None) = Returned response"
    then obtain i response where i: "i < length paths"
      and a: "api i (create_params self (paths ! i) language None) = Returned response"
      by blast
    let ?rs = "fst (transcribe_chunks_sequential self api paths language cb [])"
    have "is_success (?rs ! i)"
      using i a by (simp add: runner_nth is_success_def transcribe_audio_def empty_dict_def)
    moreover have "?rs ! i \<in> set ?rs"
      using i by (intro nth_mem) (simp add: runner_results)
    ultimately have "\<exists>r \<in> set ?rs. is_success r" by blast
    then show "has_transcript_shape (fst (transcribe_file self api paths language cb))"
      unfolding e by (rule reassemble_shape)
  qed
  from r c n m show ?thesis by blast
qed

theorem transcribe_file_shapes_witness:
  "k_success (fst (transcribe_file svc api_second_fails [''a.mp3''] None False)) = Some True
   \<and> k_segments (fst (transcribe_file svc api_second_fails [''a.mp3''] None False))
       = Some [seg 0 10 ''hello'']
   \<and> k_duration (fst (transcribe_file svc api_second_fails [''a.mp3''] None False))
       = Some (Some 300)
   \<and> k_total_chunks (fst (transcribe_file svc api_second_fails [''a.mp3''] None False)) = None
   \<and> has_transcript_shape
        (fst (transcribe_file svc api_second_fails [''a.mp3'', ''b.mp3'', ''c.mp3''] None False))"
proof -
  let ?paths = "[''a.mp3'', ''b.mp3'', ''c.mp3'']"
  let ?r = "fst (transcribe_file svc api_second_fails [''a.mp3''] None False)"
  note t = transcribe_file_shapes [of svc api_second_fails "''a.mp3''" None False ?paths]
  have a: "api_second_fails 0 (create_params svc ''a.mp3'' None None) = Returned reply"
    by (simp add: api_second_fails_def)
  from t have "case api_second_fails 0 (create_params svc ''a.mp3'' None None) of
         Returned response \<Rightarrow>
           k_success ?r = Some True
           \<and> k_text ?r = Some (case resp_text response of Some t \<Rightarrow> t | None \<Rightarrow> resp_str response)
           \<and> k_language ?r \<noteq> None
           \<and> k_duration ?r = Some (resp_duration response)
           \<and> k_segments ?r = Some (case resp_segments response of Some segs \<Rightarrow> segs | None \<Rightarrow> [])
           \<and> k_file_path ?r = Some ''a.mp3''
           \<and> k_error ?r = None
       | Raised msg \<Rightarrow>
           k_success ?r = Some False
           \<and> k_error ?r = Some (''Error: '' @ msg)
           \<and> k_file_path ?r = Some ''a.mp3''
           \<and> k_text ?r = None
           \<and> k_segments ?r = None"
    by blast
  then have s: "k_success ?r = Some True" "k_segments ?r = Some [seg 0 10 ''hello'']"
    "k_duration ?r = Some (Some 300)"
    unfolding a by (simp_all add: reply_def)
  from t have n: "k_total_chunks ?r = None" by blast
  have l: "2 \<le> length ?paths" by simp
  have "\<exists>i < length ?paths. \<exists>response.
          api_second_fails i (create_params svc (?paths ! i) None None) = Returned response"
    by (intro exI [of _ 0] exI [of _ reply]) (simp add: api_second_fails_def)
  with t l have "has_transcript_shape (fst (transcribe_file svc api_second_fails ?paths None False))"
    by blast
  with s n show ?thesis by blast
qed

section \<open>Progress notifications: proofs\<close>

lemma chunks_loop_fractions:
  "map fst (snd (chunks_loop self api language cb n i paths (results, ns))) =
     map fst ns @
     (if cb then concat (map (\<lambda>(k, p). [real k / real n, real (Suc k) / real n])
                           (enumerate i paths))
      else [])"
  by (induction paths arbitrary: i results ns) (simp_all add: Let_def progress_callback_def)

lemma runner_fractions:
  "map fst (snd (transcribe_chunks_sequential self api paths language cb ns)) =
     map fst ns @
     (if cb then concat (map (\<lambda>(k, p). [real k / real (length paths),
                                          real (Suc k) / real (length paths)])
                           (enumerate 0 paths))
      else [])"
  using chunks_loop_fractions [of self api language cb "length paths" 0 paths "[]" ns]
  by (simp add: transcribe_chunks_sequential_def)

lemma step_fractions_sorted:
  fixes n :: nat
  shows "sorted (concat (map (\<lambda>(k, p). [real k / real n, real (Suc k) / real n])
                   (enumerate i paths)))
    \<and> (\<forall>x \<in> set (concat (map (\<lambda>(k, p). [real k / real n, real (Suc k) / real n])
                   (enumerate i paths))). real i / real n \<le> x)"
proof (induction paths arbitrary: i)
  case Nil
  then show ?case by simp
next
  case (Cons p paths)
  let ?rest = "concat (map (\<lambda>(k, p). [real k / real n, real (Suc k) / real n])
                   (enumerate (Suc i) paths))"
  have a: "real i / real n \<le> real (Suc i) / real n"
    by (intro divide_right_mono) simp_all
  from Cons.IH [of "Suc i"] have s: "sorted ?rest"
    and b: "\<forall>x \<in> set ?rest. real (Suc i) / real n \<le> x"
    by blast+
  from b a have c: "\<forall>x \<in> set ?rest. real i / real n \<le> x"
    using order_trans by blast
  have "sorted (real i / real n # real (Suc i) / real n # ?rest)"
    using s a b c by simp
  moreover have "\<forall>x \<in> set (real i / real n # real (Suc i) / real n # ?rest). real i / real n \<le> x"
    using a c by simp
  ultimately show ?case by simp
qed

lemma step_fractions_unit:
  fixes n :: nat
  assumes "x \<in> set (concat (map (\<lambda>(k, p). [real k / real n, real (Suc k) / real n])
                   (enumerate 0 paths)))"
    and "length paths \<le> n"
  shows "0 \<le> x \<and> x \<le> 1"
proof -
  from assms(1) obtain k p where kp: "(k, p) \<in> set (enumerate 0 paths)"
    and x: "x = real k / real n \<or> x = real (Suc k) / real n"
    by auto
  from kp have "k < length paths"
    by (simp add: in_set_enumerate_eq)
  with assms(2) have k: "k < n" by simp
  then have "real k / real n \<le> 1" "real (Suc k) / real n \<le> 1"
    by (simp_all add: divide_le_eq_1)
  moreover have "0 \<le> real k / real n" "0 \<le> real (Suc k) / real n"
    by simp_all
  ultimately show ?thesis using x by blast
qed


lemma transcribe_file_fractions_many:
  assumes "2 \<le> length paths"
  shows "map fst (snd (transcribe_file self api paths language cb)) =
        (if cb then [1 / 10] @ concat (map (\<lambda>(k, p). [real k / real (length paths),
                                          real (Suc k) / real (length paths)])
                           (enumerate 0 paths)) @ [9 / 10, 1] else [])"
proof -
  from assms have p: "paths \<noteq> []" "length paths \<noteq> 1" by auto
  obtain rs ns where r: "transcribe_chunks_sequential self api paths language cb
      (progress_callback cb (1 / 10) ''Starting transcription...'' []) = (rs, ns)"
    by (cases "transcribe_chunks_sequential self api paths language cb
      (progress_callback cb (1 / 10) ''Starting transcription...'' [])")
  have "map fst ns = map fst (progress_callback cb (1 / 10) ''Starting transcription...'' []) @
     (if cb then concat (map (\<lambda>(k, p). [real k / real (length paths),
                                          real (Suc k) / real (length paths)])
                           (enumerate 0 paths))
      else [])"
    using runner_fractions [of self api paths language cb
        "progress_callback cb (1 / 10) ''Starting transcription...'' []"]
    unfolding r by simp
  then show ?thesis
    using p r by (simp add: transcribe_file_def Let_def progress_callback_def)
qed

text \<open>The part of C8 that holds: every fraction passed to the observer is in \<open>[0, 1]\<close>.\<close>

lemma fractions_in_unit_interval:
  assumes "x \<in> set (map fst (snd (transcribe_file self api paths language cb)))"
  shows "0 \<le> x \<and> x \<le> 1"
proof -
  have "length paths = 0 \<or> length paths = 1 \<or> 2 \<le> length paths"
    by arith
  then consider "paths = []" | "length paths = 1" | "2 \<le> length paths"
    by auto
  then show ?thesis
  proof cases
    case 1
    with assms show ?thesis by (simp add: transcribe_file_def)
  next
    case 2
    then have "paths \<noteq> []" by auto
    with 2 have "map fst (snd (transcribe_file self api paths language cb))
        = (if cb then [1 / 2, 1] else [])"
      by (simp add: transcribe_file_def Let_def progress_callback_def)
    with assms show ?thesis
      by (cases cb) auto
  next
    case 3
    show ?thesis
    proof (cases cb)
      case False
      with assms transcribe_file_fractions_many [OF 3, of self api language cb]
      show ?thesis by simp
    next
      case True
      let ?steps = "concat (map (\<lambda>(k, p). [real k / real (length paths),
                                          real (Suc k) / real (length paths)])
                           (enumerate 0 paths))"
      from True transcribe_file_fractions_many [OF 3, of self api language cb]
      have e: "map fst (snd (transcribe_file self api paths language cb))
          = [1 / 10] @ ?steps @ [9 / 10, 1]"
        by simp
      from assms have "x \<in> set ([1 / 10] @ ?steps @ [9 / 10, 1])"
        unfolding e .
      then have "x = 1 / 10 \<or> x = 9 / 10 \<or> x = 1 \<or> x \<in> set ?steps"
        by (simp only: set_append set_simps) blast
      then show ?thesis
        using step_fractions_unit [of x "length paths" paths] by auto
    qed
  qed
qed

text \<open>Within the runner, and in a single-chunk invocation, the fractions never decrease.\<close>

lemma runner_fractions_sorted:
  "sorted (map fst (snd (transcribe_chunks_sequential self api paths language cb [])))"
  using step_fractions_sorted [of "length paths" 0 paths]
  by (simp add: runner_fractions)

lemma single_chunk_fractions:
  "map fst (snd (transcribe_file self api [p] language cb)) = (if cb then [1 / 2, 1] else [])"
  by (simp add: transcribe_file_def Let_def progress_callback_def)

text \<open>
  With an observer and two or more chunks the sequence starts \<open>0.1, 0\<close>: it is never
  monotone.
\<close>

lemma many_chunks_fractions_regress:
  assumes "2 \<le> length paths"
  shows "\<not> sorted (map fst (snd (transcribe_file self api paths language True)))"
proof -
  from assms obtain p rest where "paths = p # rest"
    by (cases paths) auto
  with transcribe_file_fractions_many [OF assms, of self api language True]
  have "\<exists>tl. map fst (snd (transcribe_file self api paths language True))
        = (1 / 10) # 0 # tl"
    by simp
  then show ?thesis by auto
qed

section \<open>Progress notifications: the claim\<close>

text \<open>
  C8. Across one invocation of \<^verbatim>\<open>transcribe_file\<close> with an observer the fractions
  should never decrease. With two chunks the observer is called with
  \<open>0.1, 0, 0.5, 0.5, 1, 0.9, 1\<close>: the fraction falls from 0.1 to 0 when the runner
  starts and from 1 to 0.9 when it is done.
\<close>

theorem two_chunks_fractions_regress:
  "map fst (snd (transcribe_file svc api_second_fails [''a.mp3'', ''b.mp3''] None True))
     = [1 / 10, 0, 1 / 2, 1 / 2, 1, 9 / 10, 1]
   \<and> \<not> sorted (map fst (snd (transcribe_file svc api_second_fails [''a.mp3'', ''b.mp3'']
                                None True)))"
proof -
  have l: "2 \<le> length [''a.mp3'', ''b.mp3'']" by simp
  have "map fst (snd (transcribe_file svc api_second_fails [''a.mp3'', ''b.mp3''] None True))
     = [1 / 10, 0, 1 / 2, 1 / 2, 1, 9 / 10, 1]"
    using transcribe_file_fractions_many [OF l, of svc api_second_fails None True]
    by simp
  then show ?thesis by simp
qed

section \<open>The store: proofs\<close>

lemma upt_from_Cons: "[n ..< n + Suc m] = n # [Suc n ..< Suc n + m]"
  by (simp add: upt_conv_Cons del: upt_Suc)

lemma nth_fresh: "map (\<lambda>a. (h @ segs) ! a) [length h ..< length h + length segs] = segs"
  by (rule nth_equalityI) (simp_all add: nth_append)

lemma adjust_loop_store_eq:
  assumes "list_all (\<lambda>a. a < length h) segs"
  shows "adjust_loop_store segs off (acc, h) =
     (acc @ [length h ..< length h + length segs],
      h @ map (\<lambda>a. \<lparr>seg_start = seg_start (h ! a) + off, seg_end = seg_end (h ! a) + off,
                      seg_text = seg_text (h ! a)\<rparr>) segs)"
  using assms
proof (induction segs arbitrary: acc h)
  case Nil
  then show ?case by simp
next
  case (Cons a segs)
  let ?v = "\<lparr>seg_start = seg_start (h ! a) + off, seg_end = seg_end (h ! a) + off,
             seg_text = seg_text (h ! a)\<rparr>"
  let ?h = "h @ [?v]"
  from Cons.prems have a: "a < length h" and r: "list_all (\<lambda>a. a < length h) segs"
    by simp_all
  have step: "add_end (add_start (snd (copy_obj h a)) (fst (copy_obj h a)) off)
                (fst (copy_obj h a)) off = ?h"
    by (simp add: copy_obj_def add_start_def add_end_def)
  from r have r': "list_all (\<lambda>a. a < length ?h) segs"
    by (auto simp: list_all_iff)
  from r have same: "map (\<lambda>a. \<lparr>seg_start = seg_start (?h ! a) + off,
        seg_end = seg_end (?h ! a) + off, seg_text = seg_text (?h ! a)\<rparr>) segs
      = map (\<lambda>a. \<lparr>seg_start = seg_start (h ! a) + off,
        seg_end = seg_end (h ! a) + off, seg_text = seg_text (h ! a)\<rparr>) segs"
    by (intro map_cong refl) (simp add: list_all_iff nth_append)
  have "adjust_loop_store (a # segs) off (acc, h)
      = adjust_loop_store segs off (acc @ [length h], ?h)"
    using step by (simp add: split_beta Let_def copy_obj_def)
  also have "\<dots> = ((acc @ [length h]) @ [length ?h ..< length ?h + length segs],
      ?h @ map (\<lambda>a. \<lparr>seg_start = seg_start (?h ! a) + off,
        seg_end = seg_end (?h ! a) + off, seg_text = seg_text (?h ! a)\<rparr>) segs)"
    by (rule Cons.IH [OF r'])
  finally have f: "adjust_loop_store (a # segs) off (acc, h)
      = ((acc @ [length h]) @ [length ?h ..< length ?h + length segs],
      ?h @ map (\<lambda>a. \<lparr>seg_start = seg_start (h ! a) + off,
        seg_end = seg_end (h ! a) + off, seg_text = seg_text (h ! a)\<rparr>) segs)"
    unfolding same .
  have u: "[length h ..< length h + length (a # segs)]
      = length h # [length ?h ..< length ?h + length segs]"
    using upt_from_Cons [of "length h" "length segs"] by simp
  show ?case
    unfolding f u by simp
qed


lemma merge_loop_acc:
  "merge_loop chunks (acc, off) =
     (acc @ fst (merge_loop chunks ([], off)), snd (merge_loop chunks ([], off)))"
proof (induction chunks arbitrary: acc off)
  case Nil
  then show ?case by simp
next
  case (Cons c chunks)
  show ?case
  proof (cases "get_segments c = []")
    case True
    then show ?thesis using Cons.IH [of acc off] by simp
  next
    case False
    define off' where "off' = (case get_duration c of
        Some d \<Rightarrow> if d \<noteq> 0 then off + d else off | None \<Rightarrow> off)"
    define new where "new = adjust_loop (get_segments c) off []"
    have n: "adjust_loop (get_segments c) off acc = acc @ new"
      by (simp add: new_def adjust_loop_eq)
    have "merge_loop (c # chunks) (acc, off) = merge_loop chunks (acc @ new, off')"
      using False by (simp add: Let_def off'_def n)
    moreover have "merge_loop (c # chunks) ([], off) = merge_loop chunks (new, off')"
      using False by (simp add: Let_def off'_def new_def)
    ultimately show ?thesis
      using Cons.IH [of "acc @ new" off'] Cons.IH [of new off'] by simp
  qed
qed

lemma load_simps [simp]:
  "get_segments (load h c) = map (\<lambda>a. h ! a) (get_segments c)"
  "get_duration (load h c) = get_duration c"
  "is_success (load h c) = is_success c"
  "k_text (load h c) = k_text c"
  "get_text (load h c) = get_text c"
  "k_language (load h c) = k_language c"
  "chunk_error_of (load h c) = chunk_error_of c"
  by (simp_all add: load_def get_segments_def get_duration_def is_success_def get_text_def
      chunk_error_of_def split: option.splits)

lemma load_extend:
  assumes "list_all (\<lambda>a. a < length h) (get_segments c)"
  shows "load (h @ ext) c = load h c"
proof -
  from assms have "map_option (map (\<lambda>a. (h @ ext) ! a)) (k_segments c)
      = map_option (map (\<lambda>a. h ! a)) (k_segments c)"
    by (cases "k_segments c") (auto simp: get_segments_def list_all_iff nth_append)
  then show ?thesis by (simp add: load_def)
qed

lemma refs_ok_extend: "refs_ok h cs \<Longrightarrow> refs_ok (h @ ext) cs"
  by (auto simp: refs_ok_def list_all_iff intro: trans_less_add1)

lemma map_load_extend: "refs_ok h cs \<Longrightarrow> map (load (h @ ext)) cs = map (load h) cs"
  by (intro map_cong refl load_extend) (simp add: refs_ok_def list_all_iff)

lemma merge_loop_store_eq:
  assumes "refs_ok h cs"
  shows "merge_loop_store cs ((acc, off), h) =
     ((acc @ [length h ..< length h + length (fst (merge_loop (map (load h) cs) ([], off)))],
       snd (merge_loop (map (load h) cs) ([], off))),
      h @ fst (merge_loop (map (load h) cs) ([], off)))"
  using assms
proof (induction cs arbitrary: acc off h)
  case Nil
  then show ?case by simp
next
  case (Cons c cs)
  from Cons.prems have c: "list_all (\<lambda>a. a < length h) (get_segments c)"
    and cs: "refs_ok h cs"
    by (simp_all add: refs_ok_def)
  show ?case
  proof (cases "get_segments c = []")
    case True
    then show ?thesis using Cons.IH [OF cs, of acc off] by simp
  next
    case False
    define off' where "off' = (case get_duration c of
        Some d \<Rightarrow> if d \<noteq> 0 then off + d else off | None \<Rightarrow> off)"
    define new where "new = map (\<lambda>a. \<lparr>seg_start = seg_start (h ! a) + off,
        seg_end = seg_end (h ! a) + off, seg_text = seg_text (h ! a)\<rparr>) (get_segments c)"
    define S where "S = fst (merge_loop (map (load h) cs) ([], off'))"
    define off2 where "off2 = snd (merge_loop (map (load h) cs) ([], off'))"
    have ln: "length new = length (get_segments c)"
      by (simp add: new_def)
    have "merge_loop_store (c # cs) ((acc, off), h)
        = merge_loop_store cs ((acc @ [length h ..< length h + length new], off'), h @ new)"
      using False adjust_loop_store_eq [OF c, of off acc]
      by (simp add: Let_def off'_def new_def)
    also have "\<dots> = (((acc @ [length h ..< length h + length new])
          @ [length (h @ new) ..< length (h @ new) + length S], off2), (h @ new) @ S)"
      using Cons.IH [OF refs_ok_extend [OF cs, of new], of "acc @ [length h ..< length h + length new]" off']
      by (simp only: map_load_extend [OF cs] S_def off2_def)
    finally have store: "merge_loop_store (c # cs) ((acc, off), h)
        = (((acc @ [length h ..< length h + length new])
          @ [length (h @ new) ..< length (h @ new) + length S], off2), (h @ new) @ S)" .
    have "merge_loop (map (load h) (c # cs)) ([], off)
        = merge_loop (map (load h) cs) (new, off')"
      using False by (simp add: Let_def off'_def new_def adjust_loop_eq comp_def)
    then have pure: "merge_loop (map (load h) (c # cs)) ([], off) = (new @ S, off2)"
      using merge_loop_acc [of "map (load h) cs" new off'] by (simp add: S_def off2_def)
    have u: "[length h ..< length h + length new]
          @ [length (h @ new) ..< length (h @ new) + length S]
        = [length h ..< length h + length (new @ S)]"
    proof -
      have "[length h ..< (length h + length new) + length S]
          = [length h ..< length h + length new]
            @ [length h + length new ..< length h + length new + length S]"
        by (rule upt_add_eq_append) simp
      then show ?thesis
        by (simp only: length_append add.assoc)
    qed
    show ?thesis
      unfolding store pure by (simp only: fst_conv snd_conv append_assoc u)
  qed
qed


lemma filter_success_load:
  "filter is_success (map (load h) rs) = map (load h) (filter is_success rs)"
  "filter (\<lambda>r. \<not> is_success r) (map (load h) rs) = map (load h) (filter (\<lambda>r. \<not> is_success r) rs)"
  by (simp_all add: filter_map comp_def)

lemma texts_load:
  "map get_text (filter (\<lambda>chunk. truthy_str (k_text chunk)) (map (load h) cs))
     = map get_text (filter (\<lambda>chunk. truthy_str (k_text chunk)) cs)"
  by (simp add: filter_map comp_def)

lemma language_load:
  "(case map (load h) cs of
      c # _ \<Rightarrow> (case k_language c of Some l \<Rightarrow> l | None \<Rightarrow> None)
    | [] \<Rightarrow> Some ''unknown'')
   = (case cs of
      c # _ \<Rightarrow> (case k_language c of Some l \<Rightarrow> l | None \<Rightarrow> None)
    | [] \<Rightarrow> Some ''unknown'')"
  by (cases cs) simp_all

lemma reassemble_store_refines:
  assumes "refs_ok h rs"
  shows "\<exists>ext. snd (reassemble_transcription_store h rs) = h @ ext
     \<and> load (h @ ext) (fst (reassemble_transcription_store h rs))
         = reassemble_transcription (map (load h) rs)"
proof (cases "filter is_success rs = []")
  case True
  then have f: "filter is_success (map (load h) rs) = []"
    by (simp add: filter_success_load)
  have "filter (\<lambda>r. \<not> is_success r) rs = rs"
    using True by (simp add: filter_empty_conv)
  with True have "reassemble_transcription_store h rs =
      (empty_dict\<lparr>k_success := Some False,
         k_error := Some ''All chunks failed to transcribe'',
         k_failed_chunks := Some (length rs),
         k_chunk_errors := Some (map chunk_error_of rs)\<rparr>, h)"
    by (simp add: reassemble_transcription_store_def Let_def)
  then have st: "snd (reassemble_transcription_store h rs) = h @ []"
    and "load (h @ []) (fst (reassemble_transcription_store h rs))
         = empty_dict\<lparr>k_success := Some False,
         k_error := Some ''All chunks failed to transcribe'',
         k_failed_chunks := Some (length rs),
         k_chunk_errors := Some (map chunk_error_of rs)\<rparr>"
    by (simp_all add: load_def empty_dict_def)
  moreover have "reassemble_transcription (map (load h) rs)
         = empty_dict\<lparr>k_success := Some False,
         k_error := Some ''All chunks failed to transcribe'',
         k_failed_chunks := Some (length rs),
         k_chunk_errors := Some (map chunk_error_of rs)\<rparr>"
    using reassemble_failure [OF f] by (simp add: comp_def)
  ultimately have "load (h @ []) (fst (reassemble_transcription_store h rs))
         = reassemble_transcription (map (load h) rs)"
    by simp
  with st show ?thesis by blast
next
  case False
  define cs where "cs = filter is_success rs"
  define segs where "segs = fst (merge_loop (map (load h) cs) ([], 0))"
  define off where "off = snd (merge_loop (map (load h) cs) ([], 0))"
  from assms have ok: "refs_ok h cs"
    by (auto simp: refs_ok_def cs_def list_all_iff)
  have f: "filter is_success (map (load h) rs) \<noteq> []"
    using False by (simp add: filter_success_load)
  have m: "merge_loop_store cs (([], 0), h)
      = (([length h ..< length h + length segs], off), h @ segs)"
    using merge_loop_store_eq [OF ok, of "[]" 0] by (simp add: segs_def off_def)
  have store: "reassemble_transcription_store h rs =
      (empty_dict\<lparr>
            k_success := Some True,
            k_text := Some (py_join '' '' (map get_text
                    (filter (\<lambda>chunk. truthy_str (k_text chunk)) cs))),
            k_segments := Some [length h ..< length h + length segs],
            k_total_chunks := Some (length rs),
            k_successful_chunks := Some (length cs),
            k_failed_chunks := Some (length (filter (\<lambda>r. \<not> is_success r) rs)),
            k_language := Some (case cs of
                                  c # _ \<Rightarrow> (case k_language c of Some l \<Rightarrow> l | None \<Rightarrow> None)
                                | [] \<Rightarrow> Some ''unknown''),
            k_total_duration := Some (if off > 0 then Some off else None)\<rparr>, h @ segs)"
    using False m
    by (simp add: reassemble_transcription_store_def Let_def cs_def [symmetric]
        del: filter_filter)
  have pure: "reassemble_transcription (map (load h) rs) =
     empty_dict\<lparr>
       k_success := Some True,
       k_text := Some (py_join '' '' (map get_text
                   (filter (\<lambda>chunk. truthy_str (k_text chunk)) cs))),
       k_segments := Some segs,
       k_total_chunks := Some (length rs),
       k_successful_chunks := Some (length cs),
       k_failed_chunks := Some (length (filter (\<lambda>r. \<not> is_success r) rs)),
       k_language := Some (case cs of
                             c # _ \<Rightarrow> (case k_language c of Some l \<Rightarrow> l | None \<Rightarrow> None)
                           | [] \<Rightarrow> Some ''unknown''),
       k_total_duration := Some (if off > 0 then Some off else None)\<rparr>"
    unfolding reassemble_success [OF f] filter_success_load texts_load language_load
    by (simp add: cs_def segs_def off_def)
  have "load (h @ segs) (fst (reassemble_transcription_store h rs))
         = reassemble_transcription (map (load h) rs)"
    unfolding store pure
    by (simp add: load_def empty_dict_def nth_fresh)
  moreover have "snd (reassemble_transcription_store h rs) = h @ segs"
    unfolding store by simp
  ultimately show ?thesis by blast
qed

section \<open>The store: the claim\<close>

text \<open>
  C9. \<^verbatim>\<open>reassemble_transcription\<close> is a pure function of its input. Run over a store
  in which every reference of the input is valid, it changes no object that was there
  before (the store only grows, by the copies the loop makes), so the input reads the same
  after the call as before; the result, read through the new store, is the value that
  the function on values computes from the input; and a second application to the same
  list yields a result that reads the same as the first.
\<close>

theorem reassemble_is_pure:
  assumes "refs_ok h rs"
  shows "take (length h) (snd (reassemble_transcription_store h rs)) = h
     \<and> map (load (snd (reassemble_transcription_store h rs))) rs = map (load h) rs
     \<and> load (snd (reassemble_transcription_store h rs))
          (fst (reassemble_transcription_store h rs))
        = reassemble_transcription (map (load h) rs)
     \<and> load (snd (reassemble_transcription_store
                    (snd (reassemble_transcription_store h rs)) rs))
          (fst (reassemble_transcription_store
                    (snd (reassemble_transcription_store h rs)) rs))
        = load (snd (reassemble_transcription_store h rs))
            (fst (reassemble_transcription_store h rs))"
proof -
  let ?h1 = "snd (reassemble_transcription_store h rs)"
  let ?r1 = "fst (reassemble_transcription_store h rs)"
  from reassemble_store_refines [OF assms] obtain ext where e: "?h1 = h @ ext"
    and r: "load ?h1 ?r1 = reassemble_transcription (map (load h) rs)"
    by auto
  have frame: "take (length h) ?h1 = h"
    unfolding e by simp
  have same: "map (load ?h1) rs = map (load h) rs"
    unfolding e using assms by (rule map_load_extend)
  have ok1: "refs_ok ?h1 rs"
    unfolding e using assms by (rule refs_ok_extend)
  let ?h2 = "snd (reassemble_transcription_store ?h1 rs)"
  let ?r2 = "fst (reassemble_transcription_store ?h1 rs)"
  from reassemble_store_refines [OF ok1] obtain ext2 where "?h2 = ?h1 @ ext2"
    and "load ?h2 ?r2 = reassemble_transcription (map (load ?h1) rs)"
    by auto
  then have "load ?h2 ?r2 = load ?h1 ?r1"
    unfolding same r by simp
  with frame same r show ?thesis by blast
qed


theorem reassemble_is_pure_witness:
  "refs_ok store0 chunks0
   \<and> snd (reassemble_transcription_store store0 chunks0)
       = store0 @ [seg 0 10 ''a'', seg 300 305 ''b'']
   \<and> take (length store0) (snd (reassemble_transcription_store store0 chunks0)) = store0
   \<and> k_segments (load (snd (reassemble_transcription_store store0 chunks0))
                   (fst (reassemble_transcription_store store0 chunks0)))
       = Some [seg 0 10 ''a'', seg 300 305 ''b'']
   \<and> load (snd (reassemble_transcription_store
                    (snd (reassemble_transcription_store store0 chunks0)) chunks0))
          (fst (reassemble_transcription_store
                    (snd (reassemble_transcription_store store0 chunks0)) chunks0))
        = load (snd (reassemble_transcription_store store0 chunks0))
            (fst (reassemble_transcription_store store0 chunks0))"
proof -
  have ok: "refs_ok store0 chunks0"
    by (simp add: refs_ok_def store0_def chunks0_def chunk_defs)
  note t = reassemble_is_pure [OF ok]
  have s: "snd (reassemble_transcription_store store0 chunks0)
       = store0 @ [seg 0 10 ''a'', seg 300 305 ''b'']"
    by (simp add: reassemble_transcription_store_def store0_def chunks0_def chunk_defs
        copy_obj_def add_start_def add_end_def Let_def)
  have p: "k_segments (reassemble_transcription (map (load store0) chunks0))
       = Some [seg 0 10 ''a'', seg 300 305 ''b'']"
    by (simp add: reassemble_transcription_def load_def store0_def chunks0_def chunk_defs Let_def)
  from t have "load (snd (reassemble_transcription_store store0 chunks0))
          (fst (reassemble_transcription_store store0 chunks0))
        = reassemble_transcription (map (load store0) chunks0)"
    by blast
  with p have k: "k_segments (load (snd (reassemble_transcription_store store0 chunks0))
                   (fst (reassemble_transcription_store store0 chunks0)))
       = Some [seg 0 10 ''a'', seg 300 305 ''b'']"
    by simp
  from t ok s k show ?thesis by blast
qed

end
